theory Spec2Isabelle
  imports Complex_Main "HOL-Library.Word" "HOL-Library.Extended_Nat" "HOL-Library.Multiset"
begin

section \<open>JavaScript values\<close>

text \<open>
  The engine of \<^verbatim>\<open>src/services/flag.service.ts\<close> works on values of type
  \<^verbatim>\<open>unknown\<close>: flag defaults, rule values, condition operands and the attributes
  of the evaluation context are JSON data. A number is a double: its comparisons are exact
  on the rational it denotes, NaN compares false with everything.
  A string is its sequence of code units; an object is the list of its own properties,
  which are data and so never callable.
\<close>

datatype jsnum = NaN | NegInf | Fin rat | PosInf

datatype jsval =
    JUndefined
  | JNull
  | JBool bool
  | JNum jsnum
  | JStr string
  | JArr "jsval list"
  | JObj "(string \<times> jsval) list"

text \<open>
  A property read reaches more than data, because objects and arrays inherit: a built-in
  function, named by its path (\<^verbatim>\<open>Object\<close>, \<^verbatim>\<open>Object.prototype.toString\<close>), and the
  two prototype objects themselves, which \<^verbatim>\<open>__proto__\<close> gives.
\<close>

datatype resolved = Data jsval | Builtin string | ObjectPrototype | ArrayPrototype

text \<open>What the code can throw or be rejected with; a function that can raise returns a
  sum whose left summand is the error.\<close>

datatype js_error = SyntaxError | TypeError | RedisError | DatabaseError

definition and_then :: "'e + 'a \<Rightarrow> ('a \<Rightarrow> 'e + 'b) \<Rightarrow> 'e + 'b" where
  "and_then r f = (case r of Inl e \<Rightarrow> Inl e | Inr v \<Rightarrow> f v)"

text \<open>The results of a list of steps made from left to right, up to the first that
  raises.\<close>

fun collect :: "('e + 'a) list \<Rightarrow> 'e + 'a list" where
  "collect [] = Inr []"
| "collect (r # rs) =
     (case r of
        Inl e \<Rightarrow> Inl e
      | Inr v \<Rightarrow> (case collect rs of Inl e \<Rightarrow> Inl e | Inr vs \<Rightarrow> Inr (v # vs)))"

section \<open>Types of the flag service\<close>

record FlagCondition =
  field :: string
  operator :: string
  cond_value :: jsval

record StoredRule =
  rule_id :: string
  priority :: int
  conditions :: "FlagCondition list"
  rule_value :: jsval
  rolloutPercentage :: "int option"

record StoredFlag =
  flag_id :: string
  flag_key :: string
  flag_name :: string
  description :: "string option"
  flag_type :: "string option"
  defaultValue :: jsval
  enabled :: "bool option"
  rules :: "StoredRule list"

type_synonym FlagEvaluationContext = "(string \<times> jsval) list"

datatype eval_source = Rule | Default | Disabled

record FlagEvaluationResult =
  res_key :: string
  res_value :: jsval
  source :: eval_source
  ruleId :: "string option"

section \<open>The runtime\<close>

text \<open>
  Modelled from the spec: \<^verbatim>\<open>murmurhash3\<close> is imported from \<^verbatim>\<open>../lib/crypto\<close>,
  which is not among the sources. The spec (4.3) makes it a 32-bit non-cryptographic
  hash whose value modulo 100 is a bucket in 0..99, and the call site says the same
  (\<^verbatim>\<open>hash % 100; // 0-99\<close>): a function from strings to unsigned 32-bit words, the
  first field of the record below.

  The other fields are the parts of the JavaScript runtime that depend on the binary
  representation of doubles, on the regular-expression engine, on the JSON codec or on
  the version of the runtime:
  \<^item> \<open>double_of_nat\<close>: the double nearest to an integer above \<open>2 ^ 53\<close>
    (\<open>\<infinity>\<close> beyond the range of doubles); integers up to \<open>2 ^ 53\<close> are doubles.
  \<^item> \<open>string_to_number\<close>: \<^verbatim>\<open>Number(s)\<close> on a string that is neither empty nor a plain
    run of digits.
  \<^item> \<open>number_to_string\<close>: \<^verbatim>\<open>String(n)\<close> on a number.
  \<^item> \<open>RegExp\<close>: \<^verbatim>\<open>new RegExp(p)\<close>, \<open>None\<close> when the constructor throws a
    SyntaxError, otherwise the compiled pattern's \<^verbatim>\<open>test\<close>.
  \<^item> \<open>function_source\<close>: \<^verbatim>\<open>String(f)\<close> on a built-in function, its source text.
  \<^item> \<open>more_array_members\<close>: the names of the members of \<^verbatim>\<open>Array.prototype\<close> that
    this runtime has beyond those every runtime of the service has.
  \<^item> \<open>JSON_stringify\<close>: the serialised snapshot that \<^verbatim>\<open>setCache\<close> stores.
  \<^item> \<open>JSON_parse\<close>: what \<^verbatim>\<open>getCache\<close> makes of a stored string, read as the
    snapshot its caller casts it to; \<open>None\<close> when the value is falsy (null, false, 0,
    the empty string), which the loader's \<^verbatim>\<open>if (cached)\<close> takes for a miss.
  The runtime is a parameter of every function that uses one of them.
\<close>

record runtime =
  murmurhash3 :: "string \<Rightarrow> 32 word"
  double_of_nat :: "nat \<Rightarrow> enat"
  string_to_number :: "string \<Rightarrow> jsnum"
  number_to_string :: "jsnum \<Rightarrow> string"
  RegExp :: "string \<Rightarrow> (string \<Rightarrow> bool) option"
  function_source :: "string \<Rightarrow> string"
  more_array_members :: "string list"
  JSON_stringify :: "StoredFlag list \<Rightarrow> string"
  JSON_parse :: "string \<Rightarrow> StoredFlag list option"

subsection \<open>Digits\<close>

definition is_digit :: "char \<Rightarrow> bool" where
  "is_digit c = (48 \<le> (of_char c :: nat) \<and> (of_char c :: nat) \<le> 57)"

definition digit_val :: "char \<Rightarrow> nat" where
  "digit_val c = of_char c - 48"

definition digits_value :: "string \<Rightarrow> nat" where
  "digits_value ds = foldl (\<lambda>n c. 10 * n + digit_val c) 0 ds"

subsection \<open>Number comparison\<close>

fun num_lt :: "jsnum \<Rightarrow> jsnum \<Rightarrow> bool" where
  "num_lt NaN _ = False"
| "num_lt _ NaN = False"
| "num_lt NegInf NegInf = False"
| "num_lt NegInf _ = True"
| "num_lt (Fin a) NegInf = False"
| "num_lt (Fin a) (Fin b) = (a < b)"
| "num_lt (Fin a) PosInf = True"
| "num_lt PosInf _ = False"

fun num_le :: "jsnum \<Rightarrow> jsnum \<Rightarrow> bool" where
  "num_le NaN _ = False"
| "num_le _ NaN = False"
| "num_le a b = (a = b \<or> num_lt a b)"

subsection \<open>String and Number coercion\<close>

fun join_comma :: "string list \<Rightarrow> string" where
  "join_comma [] = []"
| "join_comma [s] = s"
| "join_comma (s # t # ss) = s @ '','' @ join_comma (t # ss)"

text \<open>
  \<^verbatim>\<open>String(v)\<close> on data. An array joins the strings of its elements with commas, null
  and undefined elements as the empty string, and raises what an element raises. An
  object is asked for its \<^verbatim>\<open>toString\<close>, then for its \<^verbatim>\<open>valueOf\<close>: without an own
  property \<^verbatim>\<open>toString\<close> the inherited method answers \<^verbatim>\<open>[object Object]\<close>; an own
  property of that name is data, so it is not callable and hides the inherited method,
  \<^verbatim>\<open>valueOf\<close> (not callable when it is own, returning the object itself when it is
  inherited) gives no primitive either, and the coercion throws a TypeError.
\<close>

fun ToString :: "runtime \<Rightarrow> jsval \<Rightarrow> js_error + string" where
  "ToString rt JUndefined = Inr ''undefined''"
| "ToString rt JNull = Inr ''null''"
| "ToString rt (JBool b) = Inr (if b then ''true'' else ''false'')"
| "ToString rt (JNum n) = Inr (number_to_string rt n)"
| "ToString rt (JStr s) = Inr s"
| "ToString rt (JArr xs) =
     (case collect (map (\<lambda>x. if x = JUndefined \<or> x = JNull then Inr [] else ToString rt x) xs) of
        Inl e \<Rightarrow> Inl e
      | Inr ss \<Rightarrow> Inr (join_comma ss))"
| "ToString rt (JObj kvs) =
     (if map_of kvs ''toString'' \<noteq> None then Inl TypeError else Inr ''[object Object]'')"

text \<open>\<^verbatim>\<open>Number(s)\<close> on a string: the empty string is 0, a run of digits whose value is
  at most \<open>2 ^ 53\<close> is that integer; every other string is left to the runtime.\<close>

definition StringToNumber :: "runtime \<Rightarrow> string \<Rightarrow> jsnum" where
  "StringToNumber rt s =
     (if s = [] then Fin 0
      else if list_all is_digit s \<and> digits_value s \<le> 2 ^ 53
      then Fin (of_nat (digits_value s))
      else string_to_number rt s)"

text \<open>
  \<^verbatim>\<open>Number(v)\<close> on data. An array goes through its string form. An object is asked
  for its \<^verbatim>\<open>valueOf\<close>, which gives no primitive, then for its \<^verbatim>\<open>toString\<close>: the
  inherited one answers \<^verbatim>\<open>[object Object]\<close>, which is NaN; an own one is not callable
  and the coercion throws a TypeError.
\<close>

fun ToNumber :: "runtime \<Rightarrow> jsval \<Rightarrow> js_error + jsnum" where
  "ToNumber rt JUndefined = Inr NaN"
| "ToNumber rt JNull = Inr (Fin 0)"
| "ToNumber rt (JBool b) = Inr (if b then Fin 1 else Fin 0)"
| "ToNumber rt (JNum n) = Inr n"
| "ToNumber rt (JStr s) = Inr (StringToNumber rt s)"
| "ToNumber rt (JArr xs) = and_then (ToString rt (JArr xs)) (\<lambda>s. Inr (StringToNumber rt s))"
| "ToNumber rt (JObj kvs) =
     (if map_of kvs ''toString'' \<noteq> None then Inl TypeError else Inr NaN)"

fun typeof :: "jsval \<Rightarrow> string" where
  "typeof JUndefined = ''undefined''"
| "typeof JNull = ''object''"
| "typeof (JBool b) = ''boolean''"
| "typeof (JNum n) = ''number''"
| "typeof (JStr s) = ''string''"
| "typeof (JArr xs) = ''object''"
| "typeof (JObj kvs) = ''object''"


text \<open>
  The same on what a property read resolves to. A built-in function is its source text,
  \<^verbatim>\<open>Object.prototype\<close> is a plain object, \<^verbatim>\<open>Array.prototype\<close> an empty array.
\<close>

fun ToString_of :: "runtime \<Rightarrow> resolved \<Rightarrow> js_error + string" where
  "ToString_of rt (Data v) = ToString rt v"
| "ToString_of rt (Builtin name) = Inr (function_source rt name)"
| "ToString_of rt ObjectPrototype = Inr ''[object Object]''"
| "ToString_of rt ArrayPrototype = Inr []"

fun ToNumber_of :: "runtime \<Rightarrow> resolved \<Rightarrow> js_error + jsnum" where
  "ToNumber_of rt (Data v) = ToNumber rt v"
| "ToNumber_of rt (Builtin name) = Inr (StringToNumber rt (function_source rt name))"
| "ToNumber_of rt ObjectPrototype = Inr NaN"
| "ToNumber_of rt ArrayPrototype = Inr (StringToNumber rt [])"

fun typeof_of :: "resolved \<Rightarrow> string" where
  "typeof_of (Data v) = typeof v"
| "typeof_of (Builtin name) = ''function''"
| "typeof_of ObjectPrototype = ''object''"
| "typeof_of ArrayPrototype = ''object''"

section \<open>Semver helpers\<close>

record SemverParts =
  major :: enat
  minor :: enat
  patch :: enat

text \<open>\<^verbatim>\<open>parseInt(ds, 10)\<close> on a non-empty run of digits.\<close>

definition parseInt10 :: "runtime \<Rightarrow> string \<Rightarrow> enat" where
  "parseInt10 rt ds =
     (if digits_value ds \<le> 2 ^ 53 then enat (digits_value ds)
      else double_of_nat rt (digits_value ds))"

text \<open>The pattern \<^verbatim>\<open>/^(\d+)\.(\d+)\.(\d+)/\<close>, piece by piece. A group \<^verbatim>\<open>(\d+)\<close>
  takes the longest run of digits, which must not be empty (a shorter run would leave a
  digit where the dot must be); what follows the third group is ignored.\<close>

definition match_digits :: "string \<Rightarrow> (string \<times> string) option" where
  "match_digits s =
     (if takeWhile is_digit s = [] then None
      else Some (takeWhile is_digit s, dropWhile is_digit s))"

fun match_dot :: "string \<Rightarrow> string option" where
  "match_dot [] = None"
| "match_dot (c # cs) = (if c = CHR ''.'' then Some cs else None)"

definition parseSemver :: "runtime \<Rightarrow> string \<Rightarrow> SemverParts option" where
  "parseSemver rt version =
     (case match_digits version of
        None \<Rightarrow> None
      | Some (d1, r1) \<Rightarrow>
          (case match_dot r1 of
             None \<Rightarrow> None
           | Some s2 \<Rightarrow>
               (case match_digits s2 of
                  None \<Rightarrow> None
                | Some (d2, r2) \<Rightarrow>
                    (case match_dot r2 of
                       None \<Rightarrow> None
                     | Some s3 \<Rightarrow>
                         (case match_digits s3 of
                            None \<Rightarrow> None
                          | Some (d3, r3) \<Rightarrow>
                              Some \<lparr>major = parseInt10 rt d1, minor = parseInt10 rt d2,
                                    patch = parseInt10 rt d3\<rparr>)))))"

text \<open>The relational operators on two strings compare code units from the left.\<close>

fun str_lt :: "string \<Rightarrow> string \<Rightarrow> bool" where
  "str_lt [] [] = False"
| "str_lt [] (y # ys) = True"
| "str_lt (x # xs) [] = False"
| "str_lt (x # xs) (y # ys) =
     (if (of_char x :: nat) < of_char y then True
      else if (of_char y :: nat) < of_char x then False
      else str_lt xs ys)"

definition compareSemver :: "runtime \<Rightarrow> string \<Rightarrow> string \<Rightarrow> int" where
  "compareSemver rt a b =
     (case (parseSemver rt a, parseSemver rt b) of
        (Some aParts, Some bParts) \<Rightarrow>
          if major aParts \<noteq> major bParts
          then (if major aParts < major bParts then - 1 else 1)
          else if minor aParts \<noteq> minor bParts
          then (if minor aParts < minor bParts then - 1 else 1)
          else if patch aParts \<noteq> patch bParts
          then (if patch aParts < patch bParts then - 1 else 1)
          else 0
      | _ \<Rightarrow> (if str_lt a b then - 1 else if str_lt b a then 1 else 0))"

section \<open>Condition matching\<close>

text \<open>\<^verbatim>\<open>field.split('.')\<close>: the pieces between the dots, one more than there are dots.\<close>

fun split_on :: "char \<Rightarrow> string \<Rightarrow> string list" where
  "split_on c [] = [[]]"
| "split_on c (x # xs) =
     (if x = c then [] # split_on c xs
      else (case split_on c xs of [] \<Rightarrow> [[x]] | p # ps \<Rightarrow> (x # p) # ps))"

subsection \<open>Property reads\<close>

text \<open>
  What a plain object inherits from \<^verbatim>\<open>Object.prototype\<close>, and an array from
  \<^verbatim>\<open>Array.prototype\<close> and, behind it, from \<^verbatim>\<open>Object.prototype\<close>: the members with a
  string name. Those of \<^verbatim>\<open>Object.prototype\<close> are the same in every runtime; of
  \<^verbatim>\<open>Array.prototype\<close> the list holds the members every runtime of the service has, and
  the runtime names the others.
\<close>

definition object_members :: "string list" where
  "object_members =
     [''__defineGetter__'', ''__defineSetter__'', ''hasOwnProperty'', ''__lookupGetter__'',
      ''__lookupSetter__'', ''isPrototypeOf'', ''propertyIsEnumerable'', ''toString'',
      ''valueOf'', ''toLocaleString'']"

definition array_members :: "string list" where
  "array_members =
     [''concat'', ''copyWithin'', ''entries'', ''every'', ''fill'', ''filter'', ''find'',
      ''findIndex'', ''flat'', ''flatMap'', ''forEach'', ''includes'', ''indexOf'', ''join'',
      ''keys'', ''lastIndexOf'', ''map'', ''pop'', ''push'', ''reduce'', ''reduceRight'',
      ''reverse'', ''shift'', ''slice'', ''some'', ''sort'', ''splice'', ''toLocaleString'',
      ''toString'', ''unshift'', ''values'']"

definition from_object_prototype :: "string \<Rightarrow> resolved" where
  "from_object_prototype part =
     (if part = ''constructor'' then Builtin ''Object''
      else if part \<in> set object_members then Builtin (''Object.prototype.'' @ part)
      else Data JUndefined)"

definition from_array_prototype :: "runtime \<Rightarrow> string \<Rightarrow> resolved" where
  "from_array_prototype rt part =
     (if part = ''constructor'' then Builtin ''Array''
      else if part \<in> set array_members \<or> part \<in> set (more_array_members rt)
      then Builtin (''Array.prototype.'' @ part)
      else from_object_prototype part)"

text \<open>The name of an array index: \<^verbatim>\<open>0\<close>, or digits that do not start with 0.\<close>

definition canonical_index :: "string \<Rightarrow> nat option" where
  "canonical_index s =
     (if s = ''0'' then Some 0
      else if s \<noteq> [] \<and> list_all is_digit s \<and> hd s \<noteq> CHR ''0'' then Some (digits_value s)
      else None)"

definition own_element :: "jsval list \<Rightarrow> string \<Rightarrow> jsval option" where
  "own_element xs part =
     (if part = ''length'' then Some (JNum (Fin (of_nat (length xs))))
      else case canonical_index part of
             None \<Rightarrow> None
           | Some i \<Rightarrow> if i < length xs then Some (xs ! i) else None)"

text \<open>
  The property read \<^verbatim>\<open>current[part]\<close> on a value whose \<^verbatim>\<open>typeof\<close> is
  \<^verbatim>\<open>object\<close>. An own property comes first: a property of the record, an element or
  the length of the array. A name that is not own is looked up along the prototype
  chain; \<^verbatim>\<open>__proto__\<close> gives the prototype itself. A name found nowhere is
  \<^verbatim>\<open>undefined\<close>.
\<close>

fun get_prop :: "runtime \<Rightarrow> resolved \<Rightarrow> string \<Rightarrow> resolved" where
  "get_prop rt (Data (JObj kvs)) part =
     (case map_of kvs part of
        Some v \<Rightarrow> Data v
      | None \<Rightarrow> if part = ''__proto__'' then ObjectPrototype else from_object_prototype part)"
| "get_prop rt (Data (JArr xs)) part =
     (case own_element xs part of
        Some v \<Rightarrow> Data v
      | None \<Rightarrow> if part = ''__proto__'' then ArrayPrototype else from_array_prototype rt part)"
| "get_prop rt ObjectPrototype part =
     (if part = ''__proto__'' then Data JNull else from_object_prototype part)"
| "get_prop rt ArrayPrototype part =
     (if part = ''length'' then Data (JNum (Fin 0))
      else if part = ''__proto__'' then ObjectPrototype
      else from_array_prototype rt part)"
| "get_prop rt current part = Data JUndefined"

text \<open>The loop of \<^verbatim>\<open>getContextValue\<close> over the remaining parts.\<close>

fun walk :: "runtime \<Rightarrow> resolved \<Rightarrow> string list \<Rightarrow> resolved" where
  "walk rt current [] = current"
| "walk rt current (part # parts) =
     (if current = Data JNull \<or> current = Data JUndefined then Data JUndefined
      else if typeof_of current = ''object'' then walk rt (get_prop rt current part) parts
      else Data JUndefined)"

definition getContextValue :: "runtime \<Rightarrow> FlagEvaluationContext \<Rightarrow> string \<Rightarrow> resolved" where
  "getContextValue rt context fld = walk rt (Data (JObj context)) (split_on CHR ''.'' fld)"

subsection \<open>A single condition\<close>

text \<open>\<^verbatim>\<open>haystack.includes(needle)\<close> on strings: the needle starts at some position
  of the haystack.\<close>

fun is_prefix :: "string \<Rightarrow> string \<Rightarrow> bool" where
  "is_prefix [] ys = True"
| "is_prefix (x # xs) [] = False"
| "is_prefix (x # xs) (y # ys) = (x = y \<and> is_prefix xs ys)"

fun str_includes :: "string \<Rightarrow> string \<Rightarrow> bool" where
  "str_includes [] needle = (needle = [])"
| "str_includes (h # hs) needle = (is_prefix needle (h # hs) \<or> str_includes hs needle)"

text \<open>
  The four ordering cases share their shape; \<open>sem\<close> tests the sign of the semver
  result and \<open>num\<close> compares the two numbers. The test
  \<^verbatim>\<open>typeof v === 'string'\<close> holds of the strings only, and \<^verbatim>\<open>String\<close> of a string is
  the string.
\<close>

definition numeric_case ::
  "runtime \<Rightarrow> (jsnum \<Rightarrow> jsnum \<Rightarrow> bool) \<Rightarrow> resolved \<Rightarrow> jsval \<Rightarrow> js_error + bool" where
  "numeric_case rt num contextValue conditionValue =
     and_then (ToNumber_of rt contextValue) (\<lambda>m.
     and_then (ToNumber rt conditionValue) (\<lambda>n. Inr (num m n)))"

definition ordering_case ::
  "runtime \<Rightarrow> (int \<Rightarrow> bool) \<Rightarrow> (jsnum \<Rightarrow> jsnum \<Rightarrow> bool) \<Rightarrow> resolved \<Rightarrow> jsval
     \<Rightarrow> js_error + bool" where
  "ordering_case rt sem num contextValue conditionValue =
     (case (contextValue, conditionValue) of
        (Data (JStr a), JStr b) \<Rightarrow>
          if parseSemver rt a \<noteq> None \<and> parseSemver rt b \<noteq> None
          then Inr (sem (compareSemver rt a b))
          else numeric_case rt num contextValue conditionValue
      | _ \<Rightarrow> numeric_case rt num contextValue conditionValue)"

text \<open>The body of the \<^verbatim>\<open>try\<close> in the regex case: it raises what the coercion of
  the operand, the constructor or the coercion of the context value raises.\<close>

definition regex_try :: "runtime \<Rightarrow> resolved \<Rightarrow> jsval \<Rightarrow> js_error + bool" where
  "regex_try rt contextValue conditionValue =
     and_then (ToString rt conditionValue) (\<lambda>p.
       case RegExp rt p of
         None \<Rightarrow> Inl SyntaxError
       | Some test \<Rightarrow> and_then (ToString_of rt contextValue) (\<lambda>s. Inr (test s)))"

definition matchesSingleCondition ::
  "runtime \<Rightarrow> resolved \<Rightarrow> FlagCondition \<Rightarrow> js_error + bool" where
  "matchesSingleCondition rt contextValue condition =
     (let op = operator condition; conditionValue = cond_value condition in
      if contextValue = Data JUndefined \<or> contextValue = Data JNull
      then (if op = ''neq'' \<or> op = ''not_in'' then Inr True else Inr False)
      else if op = ''eq''
        then and_then (ToString_of rt contextValue) (\<lambda>a.
             and_then (ToString rt conditionValue) (\<lambda>b. Inr (a = b)))
      else if op = ''neq''
        then and_then (ToString_of rt contextValue) (\<lambda>a.
             and_then (ToString rt conditionValue) (\<lambda>b. Inr (a \<noteq> b)))
      else if op = ''gt''
        then ordering_case rt (\<lambda>r. r > 0) (\<lambda>x y. num_lt y x) contextValue conditionValue
      else if op = ''gte''
        then ordering_case rt (\<lambda>r. r \<ge> 0) (\<lambda>x y. num_le y x) contextValue conditionValue
      else if op = ''lt''
        then ordering_case rt (\<lambda>r. r < 0) (\<lambda>x y. num_lt x y) contextValue conditionValue
      else if op = ''lte''
        then ordering_case rt (\<lambda>r. r \<le> 0) (\<lambda>x y. num_le x y) contextValue conditionValue
      else if op = ''in''
        then (case conditionValue of
                JArr xs \<Rightarrow>
                  and_then (collect (map (ToString rt) xs)) (\<lambda>ss.
                  and_then (ToString_of rt contextValue) (\<lambda>a. Inr (a \<in> set ss)))
              | _ \<Rightarrow> Inr False)
      else if op = ''not_in''
        then (case conditionValue of
                JArr xs \<Rightarrow>
                  and_then (collect (map (ToString rt) xs)) (\<lambda>ss.
                  and_then (ToString_of rt contextValue) (\<lambda>a. Inr (a \<notin> set ss)))
              | _ \<Rightarrow> Inr True)
      else if op = ''contains''
        then and_then (ToString_of rt contextValue) (\<lambda>a.
             and_then (ToString rt conditionValue) (\<lambda>b. Inr (str_includes a b)))
      else if op = ''regex''
        then (case regex_try rt contextValue conditionValue of
                Inl e \<Rightarrow> Inr False
              | Inr b \<Rightarrow> Inr b)
      else Inr False)"

text \<open>\<^verbatim>\<open>conditions.every(...)\<close>: the conditions in order, up to the first that fails
  or raises.\<close>

fun every_condition ::
  "runtime \<Rightarrow> FlagEvaluationContext \<Rightarrow> FlagCondition list \<Rightarrow> js_error + bool" where
  "every_condition rt context [] = Inr True"
| "every_condition rt context (condition # rest) =
     (case matchesSingleCondition rt (getContextValue rt context (field condition)) condition of
        Inl e \<Rightarrow> Inl e
      | Inr b \<Rightarrow> if b then every_condition rt context rest else Inr False)"

definition matchesConditions ::
  "runtime \<Rightarrow> FlagEvaluationContext \<Rightarrow> FlagCondition list \<Rightarrow> js_error + bool" where
  "matchesConditions rt context conds =
     (if conds = [] then Inr True else every_condition rt context conds)"

section \<open>Rollout calculation\<close>

text \<open>The user id is declared a string; the template literal of the hash input takes
  the string of whatever value it is, and is reached only between the two bounds.\<close>

definition calculateRollout :: "runtime \<Rightarrow> string \<Rightarrow> resolved \<Rightarrow> int \<Rightarrow> js_error + bool" where
  "calculateRollout rt flagKey userId percentage =
     (if percentage \<ge> 100 then Inr True
      else if percentage \<le> 0 then Inr False
      else
        and_then (ToString_of rt userId) (\<lambda>uid.
          let hashInput = flagKey @ '':'' @ uid;
              hash = murmurhash3 rt hashInput;
              bucket = unat hash mod 100
          in Inr (int bucket < percentage)))"

section \<open>Single flag evaluation\<close>

text \<open>
  \<^verbatim>\<open>[...flag.rules].sort((a, b) => a.priority - b.priority)\<close>. The sort of the language
  is stable: an element moves in front of another only when the comparator puts it
  strictly before. Insertion from the right, each element going in front of the first
  one it is not after, computes that order.
\<close>

fun insert_by :: "('a \<Rightarrow> 'a \<Rightarrow> int) \<Rightarrow> 'a \<Rightarrow> 'a list \<Rightarrow> 'a list" where
  "insert_by cmp x [] = [x]"
| "insert_by cmp x (y # ys) = (if cmp x y \<le> 0 then x # y # ys else y # insert_by cmp x ys)"

definition array_sort :: "('a \<Rightarrow> 'a \<Rightarrow> int) \<Rightarrow> 'a list \<Rightarrow> 'a list" where
  "array_sort cmp xs = foldr (insert_by cmp) xs []"

text \<open>\<^verbatim>\<open>context.userId ?? 'anonymous'\<close>.\<close>

definition userId_of :: "runtime \<Rightarrow> FlagEvaluationContext \<Rightarrow> resolved" where
  "userId_of rt context =
     (let u = get_prop rt (Data (JObj context)) ''userId'' in
      if u = Data JNull \<or> u = Data JUndefined then Data (JStr ''anonymous'') else u)"

text \<open>The \<^verbatim>\<open>for\<close> loop over the sorted rules, \<^verbatim>\<open>continue\<close> being the recursive
  call on the rest.\<close>

fun scan_rules ::
  "runtime \<Rightarrow> StoredFlag \<Rightarrow> FlagEvaluationContext \<Rightarrow> StoredRule list
     \<Rightarrow> js_error + FlagEvaluationResult" where
  "scan_rules rt flag context [] =
     Inr \<lparr>res_key = flag_key flag, res_value = defaultValue flag, source = Default,
          ruleId = None\<rparr>"
| "scan_rules rt flag context (rule # rest) =
     (case matchesConditions rt context (conditions rule) of
        Inl e \<Rightarrow> Inl e
      | Inr matched \<Rightarrow>
          if \<not> matched then scan_rules rt flag context rest
          else if rolloutPercentage rule \<noteq> None
          then (case calculateRollout rt (flag_key flag) (userId_of rt context)
                       (the (rolloutPercentage rule)) of
                  Inl e \<Rightarrow> Inl e
                | Inr inRollout \<Rightarrow>
                    if \<not> inRollout then scan_rules rt flag context rest
                    else Inr \<lparr>res_key = flag_key flag, res_value = rule_value rule,
                              source = Rule, ruleId = Some (rule_id rule)\<rparr>)
          else Inr \<lparr>res_key = flag_key flag, res_value = rule_value rule, source = Rule,
                    ruleId = Some (rule_id rule)\<rparr>)"

definition evaluateSingleFlag ::
  "runtime \<Rightarrow> StoredFlag \<Rightarrow> FlagEvaluationContext \<Rightarrow> js_error + FlagEvaluationResult" where
  "evaluateSingleFlag rt flag context =
     (if enabled flag \<noteq> Some True
      then Inr \<lparr>res_key = flag_key flag, res_value = defaultValue flag, source = Disabled,
                ruleId = None\<rparr>
      else
        let sortedRules = array_sort (\<lambda>a b. priority a - priority b) (rules flag)
        in scan_rules rt flag context sortedRules)"

section \<open>The cache and the backing store\<close>

text \<open>
  The Redis keyspace is a table of slots, each a key with its value and its expiry in
  seconds, or with nothing once the key is deleted: a deletion empties the slots of a
  key where they stand, so the positions a SCAN cursor counts do not move under the
  deletions made between two calls. The backing store is the result of each of the two
  queries of the loader. A command to Redis and a query to the store can be rejected:
  \<open>redis_faults\<close> and \<open>db_faults\<close> say for each coming call, in order, whether it is
  (no entry: it succeeds).
\<close>

type_synonym slot = "string \<times> (string \<times> int option) option"

record FlagRow =
  row_id :: string
  row_key :: string
  row_name :: string
  row_description :: "string option"
  row_type :: "string option"
  row_defaultValue :: jsval
  row_enabled :: "bool option"

record RuleRow =
  rrow_id :: string
  rrow_flagId :: string
  rrow_priority :: int
  rrow_conditions :: "FlagCondition list option"
  rrow_value :: jsval
  rrow_rolloutPercentage :: "int option"

record world =
  slots :: "slot list"
  redis_faults :: "bool list"
  flag_rows :: "FlagRow list"
  rule_rows :: "RuleRow list"
  db_faults :: "bool list"

definition ALL_FLAGS_CACHE_KEY :: string where
  "ALL_FLAGS_CACHE_KEY = ''flags:all''"

definition ALL_FLAGS_CACHE_TTL :: int where
  "ALL_FLAGS_CACHE_TTL = 300"

subsection \<open>Redis commands\<close>

definition lookup :: "slot list \<Rightarrow> string \<Rightarrow> (string \<times> int option) option" where
  "lookup sl k = (case map_of sl k of Some (Some e) \<Rightarrow> Some e | _ \<Rightarrow> None)"

definition redis_rejects :: "world \<Rightarrow> bool" where
  "redis_rejects w = (case redis_faults w of [] \<Rightarrow> False | f # fs \<Rightarrow> f)"

definition redis_called :: "world \<Rightarrow> world" where
  "redis_called w = w\<lparr>redis_faults := tl (redis_faults w)\<rparr>"

definition redis_get :: "string \<Rightarrow> world \<Rightarrow> (js_error + string option) \<times> world" where
  "redis_get key w =
     (if redis_rejects w then (Inl RedisError, redis_called w)
      else (Inr (map_option fst (lookup (slots w) key)), redis_called w))"

definition redis_set :: "string \<Rightarrow> string \<Rightarrow> int option \<Rightarrow> world \<Rightarrow> (js_error + unit) \<times> world" where
  "redis_set key v ex w =
     (if redis_rejects w then (Inl RedisError, redis_called w)
      else (Inr (),
            redis_called w\<lparr>slots :=
              (if key \<in> fst ` set (slots w)
               then map (\<lambda>(k, e). if k = key then (k, Some (v, ex)) else (k, e)) (slots w)
               else slots w @ [(key, Some (v, ex))])\<rparr>))"

definition redis_del :: "string list \<Rightarrow> world \<Rightarrow> (js_error + unit) \<times> world" where
  "redis_del keys w =
     (if redis_rejects w then (Inl RedisError, redis_called w)
      else (Inr (),
            redis_called w\<lparr>slots :=
              map (\<lambda>(k, e). if k \<in> set keys then (k, None) else (k, e)) (slots w)\<rparr>))"

text \<open>Glob patterns of \<^verbatim>\<open>*\<close>, \<^verbatim>\<open>?\<close> and plain characters; the one pattern the
  service passes is \<^verbatim>\<open>flags:user:*\<close>.\<close>

fun glob_match :: "string \<Rightarrow> string \<Rightarrow> bool" where
  "glob_match [] [] = True"
| "glob_match [] (c # cs) = False"
| "glob_match (p # ps) [] = (p = CHR ''*'' \<and> glob_match ps [])"
| "glob_match (p # ps) (c # cs) =
     (if p = CHR ''*'' then glob_match ps (c # cs) \<or> glob_match (p # ps) cs
      else (p = CHR ''?'' \<or> p = c) \<and> glob_match ps cs)"

text \<open>\<^verbatim>\<open>SCAN cursor MATCH pattern COUNT count\<close>: the live keys among the next
  \<open>cnt\<close> slots that match, and the next cursor, 0 at the end of the table.\<close>

definition redis_scan ::
  "nat \<Rightarrow> string \<Rightarrow> nat \<Rightarrow> world \<Rightarrow> (js_error + nat \<times> string list) \<times> world" where
  "redis_scan cursor pattern cnt w =
     (if redis_rejects w then (Inl RedisError, redis_called w)
      else (Inr (if cursor + cnt < length (slots w) then cursor + cnt else 0,
                 map fst (filter (\<lambda>(k, e). e \<noteq> None \<and> glob_match pattern k)
                            (take cnt (drop cursor (slots w))))),
            redis_called w))"

subsection \<open>The helpers of \<^verbatim>\<open>src/lib/redis.ts\<close>\<close>

definition getCache ::
  "(string \<Rightarrow> 'a option) \<Rightarrow> string \<Rightarrow> world \<Rightarrow> (js_error + 'a option) \<times> world" where
  "getCache parse key w =
     (case redis_get key w of
        (Inl e, w') \<Rightarrow> (Inl e, w')
      | (Inr None, w') \<Rightarrow> (Inr None, w')
      | (Inr (Some raw), w') \<Rightarrow> if raw = [] then (Inr None, w') else (Inr (parse raw), w'))"

definition setCache ::
  "string \<Rightarrow> string \<Rightarrow> int option \<Rightarrow> world \<Rightarrow> (js_error + unit) \<times> world" where
  "setCache key serialized ttlSeconds w =
     (if ttlSeconds \<noteq> None \<and> the ttlSeconds > 0
      then redis_set key serialized ttlSeconds w
      else redis_set key serialized None w)"

definition deleteCache :: "string \<Rightarrow> world \<Rightarrow> (js_error + unit) \<times> world" where
  "deleteCache key w = redis_del [key] w"

text \<open>The \<^verbatim>\<open>do ... while (cursor !== '0')\<close> loop of \<^verbatim>\<open>deleteCachePattern\<close>.\<close>

function scan_loop ::
  "string \<Rightarrow> nat \<Rightarrow> nat \<Rightarrow> world \<Rightarrow> (js_error + nat) \<times> world" where
  "scan_loop pattern cursor deletedCount w =
     (case redis_scan cursor pattern 100 w of
        (Inl e, w1) \<Rightarrow> (Inl e, w1)
      | (Inr (nextCursor, keys), w1) \<Rightarrow>
          (case (if keys \<noteq> [] then redis_del keys w1 else (Inr (), w1)) of
             (Inl e, w2) \<Rightarrow> (Inl e, w2)
           | (Inr u, w2) \<Rightarrow>
               let deletedCount' = (if keys \<noteq> [] then deletedCount + length keys
                                    else deletedCount)
               in if nextCursor \<noteq> 0 then scan_loop pattern nextCursor deletedCount' w2
                  else (Inr deletedCount', w2)))"
  by pat_completeness auto
termination
  apply (relation "measure (\<lambda>(pattern, cursor, deletedCount, w). length (slots w) - cursor)")
   apply simp
  apply (auto simp: redis_scan_def redis_del_def redis_called_def split: if_splits)
  done

declare scan_loop.simps [simp del]

definition deleteCachePattern :: "string \<Rightarrow> world \<Rightarrow> (js_error + nat) \<times> world" where
  "deleteCachePattern pattern w = scan_loop pattern 0 0 w"

subsection \<open>The two queries\<close>

definition db_rejects :: "world \<Rightarrow> bool" where
  "db_rejects w = (case db_faults w of [] \<Rightarrow> False | f # fs \<Rightarrow> f)"

definition db_called :: "world \<Rightarrow> world" where
  "db_called w = w\<lparr>db_faults := tl (db_faults w)\<rparr>"

definition select_featureFlags :: "world \<Rightarrow> (js_error + FlagRow list) \<times> world" where
  "select_featureFlags w =
     (if db_rejects w then (Inl DatabaseError, db_called w)
      else (Inr (flag_rows w), db_called w))"

definition select_featureFlagRules :: "world \<Rightarrow> (js_error + RuleRow list) \<times> world" where
  "select_featureFlagRules w =
     (if db_rejects w then (Inl DatabaseError, db_called w)
      else (Inr (rule_rows w), db_called w))"

section \<open>Flag loading\<close>

text \<open>The loop that groups the rule rows by flag id, \<open>m\<close> being \<^verbatim>\<open>rulesByFlagId\<close>.\<close>

fun group_rules ::
  "RuleRow list \<Rightarrow> (string \<Rightarrow> StoredRule list option) \<Rightarrow> (string \<Rightarrow> StoredRule list option)" where
  "group_rules [] m = m"
| "group_rules (rule # rest) m =
     (let flagId = rrow_flagId rule;
          m1 = (if m flagId = None then m(flagId \<mapsto> []) else m)
      in group_rules rest
           (m1(flagId \<mapsto> the (m1 flagId) @
              [\<lparr>rule_id = rrow_id rule, priority = rrow_priority rule,
                conditions = (case rrow_conditions rule of None \<Rightarrow> [] | Some cs \<Rightarrow> cs),
                rule_value = rrow_value rule,
                rolloutPercentage = rrow_rolloutPercentage rule\<rparr>])))"

definition build_flags ::
  "FlagRow list \<Rightarrow> (string \<Rightarrow> StoredRule list option) \<Rightarrow> StoredFlag list" where
  "build_flags flagRows rulesByFlagId =
     map (\<lambda>flag.
           \<lparr>flag_id = row_id flag, flag_key = row_key flag, flag_name = row_name flag,
            description = row_description flag, flag_type = row_type flag,
            defaultValue = row_defaultValue flag, enabled = row_enabled flag,
            rules = (case rulesByFlagId (row_id flag) of None \<Rightarrow> [] | Some rs \<Rightarrow> rs)\<rparr>)
         flagRows"

definition loadAllFlags :: "runtime \<Rightarrow> world \<Rightarrow> (js_error + StoredFlag list) \<times> world" where
  "loadAllFlags rt w =
     (case getCache (JSON_parse rt) ALL_FLAGS_CACHE_KEY w of
        (Inl e, w1) \<Rightarrow> (Inl e, w1)
      | (Inr (Some cached), w1) \<Rightarrow> (Inr cached, w1)
      | (Inr None, w1) \<Rightarrow>
          (case select_featureFlags w1 of
             (Inl e, w2) \<Rightarrow> (Inl e, w2)
           | (Inr flagRows, w2) \<Rightarrow>
               (case select_featureFlagRules w2 of
                  (Inl e, w3) \<Rightarrow> (Inl e, w3)
                | (Inr ruleRows, w3) \<Rightarrow>
                    let rulesByFlagId = group_rules ruleRows Map.empty;
                        flags = build_flags flagRows rulesByFlagId
                    in (case setCache ALL_FLAGS_CACHE_KEY (JSON_stringify rt flags)
                               (Some ALL_FLAGS_CACHE_TTL) w3 of
                          (Inl e, w4) \<Rightarrow> (Inl e, w4)
                        | (Inr u, w4) \<Rightarrow> (Inr flags, w4)))))"

section \<open>Public functions\<close>

definition evaluateFlag ::
  "runtime \<Rightarrow> string \<Rightarrow> FlagEvaluationContext \<Rightarrow> world
     \<Rightarrow> (js_error + FlagEvaluationResult) \<times> world" where
  "evaluateFlag rt flagKey context w =
     (case loadAllFlags rt w of
        (Inl e, w') \<Rightarrow> (Inl e, w')
      | (Inr allFlags, w') \<Rightarrow>
          (case find (\<lambda>f. flag_key f = flagKey) allFlags of
             None \<Rightarrow>
               (Inr \<lparr>res_key = flagKey, res_value = JNull, source = Default, ruleId = None\<rparr>,
                w')
           | Some flag \<Rightarrow> (evaluateSingleFlag rt flag context, w')))"

definition invalidateFlagCaches :: "world \<Rightarrow> (js_error + unit) \<times> world" where
  "invalidateFlagCaches w =
     (case deleteCache ALL_FLAGS_CACHE_KEY w of
        (Inl e, w1) \<Rightarrow> (Inl e, w1)
      | (Inr u, w1) \<Rightarrow>
          (case deleteCachePattern ''flags:user:*'' w1 of
             (Inl e, w2) \<Rightarrow> (Inl e, w2)
           | (Inr n, w2) \<Rightarrow> (Inr (), w2)))"

definition invalidateUserFlagCache :: "string \<Rightarrow> world \<Rightarrow> (js_error + unit) \<times> world" where
  "invalidateUserFlagCache userId w = deleteCache (''flags:user:'' @ userId) w"

section \<open>The engine as the specification words it\<close>

subsection \<open>Path resolution\<close>

text \<open>
  A value can be read further when it is neither null nor undefined and its
  \<^verbatim>\<open>typeof\<close> is \<^verbatim>\<open>object\<close>; \<open>reached ... k\<close> is the value after the first \<open>k\<close>
  segments, each read as a property of the one before, starting from the context; and a
  path is the join of its segments with dots.
\<close>

definition readable :: "resolved \<Rightarrow> bool" where
  "readable v = (v \<noteq> Data JNull \<and> v \<noteq> Data JUndefined \<and> typeof_of v = ''object'')"

definition reached :: "runtime \<Rightarrow> FlagEvaluationContext \<Rightarrow> string list \<Rightarrow> nat \<Rightarrow> resolved" where
  "reached rt context parts k = foldl (get_prop rt) (Data (JObj context)) (take k parts)"

fun join_dots :: "string list \<Rightarrow> string" where
  "join_dots [] = []"
| "join_dots [p] = p"
| "join_dots (p # q # ps) = p @ ''.'' @ join_dots (q # ps)"

subsection \<open>Coercion\<close>



subsection \<open>The rule evaluator\<close>







subsection \<open>The ordering operators\<close>

text \<open>The semver order, component by component, and what each ordering operator asks
  of it and of two numbers.\<close>

definition spec_semver_less :: "SemverParts \<Rightarrow> SemverParts \<Rightarrow> bool" where
  "spec_semver_less x y =
     (major x < major y \<or>
      (major x = major y \<and> (minor x < minor y \<or> (minor x = minor y \<and> patch x < patch y))))"

definition spec_semver_holds :: "string \<Rightarrow> SemverParts \<Rightarrow> SemverParts \<Rightarrow> bool" where
  "spec_semver_holds op x y =
     (if op = ''gt'' then spec_semver_less y x
      else if op = ''gte'' then \<not> spec_semver_less x y
      else if op = ''lt'' then spec_semver_less x y
      else \<not> spec_semver_less y x)"

definition spec_number_holds :: "string \<Rightarrow> jsnum \<Rightarrow> jsnum \<Rightarrow> bool" where
  "spec_number_holds op m n =
     (if op = ''gt'' then num_lt n m
      else if op = ''gte'' then num_le n m
      else if op = ''lt'' then num_lt m n
      else num_le m n)"

text \<open>Both sides coerced to numbers, the context value first, and compared.\<close>

definition spec_numeric :: "runtime \<Rightarrow> string \<Rightarrow> resolved \<Rightarrow> jsval \<Rightarrow> js_error + bool" where
  "spec_numeric rt op contextValue operand =
     (case ToNumber_of rt contextValue of
        Inl e \<Rightarrow> Inl e
      | Inr m \<Rightarrow>
          (case ToNumber rt operand of
             Inl e \<Rightarrow> Inl e
           | Inr n \<Rightarrow> Inr (spec_number_holds op m n)))"

section \<open>Sample inputs\<close>

definition sample_rule :: "string \<Rightarrow> int \<Rightarrow> StoredRule" where
  "sample_rule name p =
     \<lparr>rule_id = name, priority = p, conditions = [], rule_value = JStr name,
      rolloutPercentage = None\<rparr>"

definition sample_flag :: StoredFlag where
  "sample_flag =
     \<lparr>flag_id = ''f1'', flag_key = ''new_editor_ui'', flag_name = ''New editor'',
      description = None, flag_type = Some ''boolean'', defaultValue = JBool False,
      enabled = Some True,
      rules = [sample_rule ''r10'' 10, sample_rule ''r5a'' 5, sample_rule ''r20'' 20,
               sample_rule ''r5b'' 5]\<rparr>"

text \<open>A stand-in for the runtime, to run the definitions on concrete inputs: its hash is
  the length of the input, its pattern engine rejects the unclosed group \<^verbatim>\<open>(\<close> and
  otherwise searches for the pattern as plain text, and the one string it parses is
  \<^verbatim>\<open>snapshot\<close>.\<close>

definition sample_runtime :: runtime where
  "sample_runtime =
     \<lparr>murmurhash3 = (\<lambda>s. of_nat (length s)),
      double_of_nat = enat,
      string_to_number = (\<lambda>s. NaN),
      number_to_string = (\<lambda>n. ''0''),
      RegExp = (\<lambda>p. if p = ''('' then None else Some (\<lambda>s. str_includes s p)),
      function_source = (\<lambda>name. ''function '' @ name @ ''() { [native code] }''),
      more_array_members = [''at''],
      JSON_stringify = (\<lambda>fs. ''snapshot''),
      JSON_parse = (\<lambda>raw. if raw = ''snapshot'' then Some [sample_flag] else None)\<rparr>"

definition sample_world :: world where
  "sample_world =
     \<lparr>slots = [(''flags:all'', Some (''snapshot'', Some 300)),
               (''flags:user:u1'', Some (''bulk1'', Some 60)),
               (''session:u1'', Some (''s'', None)),
               (''flags:user:u2'', Some (''bulk2'', Some 60))],
      redis_faults = [],
      flag_rows = [\<lparr>row_id = ''f1'', row_key = ''new_editor_ui'', row_name = ''New editor'',
                    row_description = None, row_type = Some ''boolean'',
                    row_defaultValue = JBool False, row_enabled = Some True\<rparr>],
      rule_rows = [],
      db_faults = []\<rparr>"




section \<open>Vocabulary of the cache proofs\<close>

text \<open>A slot is live for a pattern when it holds a value under a matching key;
  \<open>emptied K\<close> is the table after the keys of \<open>K\<close> are deleted.\<close>

definition live :: "string \<Rightarrow> slot \<Rightarrow> bool" where
  "live pattern s = (snd s \<noteq> None \<and> glob_match pattern (fst s))"

definition emptied :: "string set \<Rightarrow> slot list \<Rightarrow> slot list" where
  "emptied K sl = map (\<lambda>(k, e). if k \<in> K then (k, None) else (k, e)) sl"

section \<open>Semver comparison and the ordering operators\<close>

lemma compareSemver_sign:
  assumes "parseSemver rt a = Some x" "parseSemver rt b = Some y"
  shows "(compareSemver rt a b > 0) = spec_semver_less y x"
    and "(compareSemver rt a b \<ge> 0) = (\<not> spec_semver_less x y)"
    and "(compareSemver rt a b < 0) = spec_semver_less x y"
    and "(compareSemver rt a b \<le> 0) = (\<not> spec_semver_less y x)"
  using assms by (auto simp: compareSemver_def spec_semver_less_def)

lemma numeric_case_eq:
  "numeric_case rt (\<lambda>x y. num_lt y x) cv operand = spec_numeric rt ''gt'' cv operand"
  "numeric_case rt (\<lambda>x y. num_le y x) cv operand = spec_numeric rt ''gte'' cv operand"
  "numeric_case rt (\<lambda>x y. num_lt x y) cv operand = spec_numeric rt ''lt'' cv operand"
  "numeric_case rt (\<lambda>x y. num_le x y) cv operand = spec_numeric rt ''lte'' cv operand"
  by (simp_all add: numeric_case_def spec_numeric_def spec_number_holds_def and_then_def
      split: sum.splits)

lemma ordering_case_eq:
  "ordering_case rt sem num cv operand =
     (case (cv, operand) of
        (Data (JStr a), JStr b) \<Rightarrow>
          (case (parseSemver rt a, parseSemver rt b) of
             (Some x, Some y) \<Rightarrow> Inr (sem (compareSemver rt a b))
           | _ \<Rightarrow> numeric_case rt num cv operand)
      | _ \<Rightarrow> numeric_case rt num cv operand)"
  by (auto simp: ordering_case_def split: resolved.splits jsval.splits option.splits)

text \<open>
  Claim C4. For an ordering operator (\<^verbatim>\<open>gt\<close>, \<^verbatim>\<open>gte\<close>, \<^verbatim>\<open>lt\<close>, \<^verbatim>\<open>lte\<close>) and a
  context value that is present: when the context value and the operand are both
  strings and both parse as a leading major.minor.patch triplet, the condition holds
  exactly when the component-wise order of the two triplets says so; in every other
  case both sides are coerced to numbers, the context value first, and the condition
  holds exactly when the numeric comparison does (a coercion that raises is raised).
  So \<^verbatim>\<open>1.10.0\<close> is greater than \<^verbatim>\<open>1.9.0\<close>, not the other way round, and \<^verbatim>\<open>10\<close>
  is greater than \<^verbatim>\<open>9\<close>, whatever the runtime.
\<close>

theorem ordering_operators:
  "(contextValue \<noteq> Data JUndefined \<and> contextValue \<noteq> Data JNull \<and>
    op \<in> {''gt'', ''gte'', ''lt'', ''lte''} \<longrightarrow>
     matchesSingleCondition rt contextValue \<lparr>field = f, operator = op, cond_value = operand\<rparr> =
       (case (contextValue, operand) of
          (Data (JStr a), JStr b) \<Rightarrow>
            (case (parseSemver rt a, parseSemver rt b) of
               (Some x, Some y) \<Rightarrow> Inr (spec_semver_holds op x y)
             | _ \<Rightarrow> spec_numeric rt op contextValue operand)
        | _ \<Rightarrow> spec_numeric rt op contextValue operand)) \<and>
   matchesSingleCondition rt (Data (JStr ''1.10.0''))
     \<lparr>field = f, operator = ''gt'', cond_value = JStr ''1.9.0''\<rparr> = Inr True \<and>
   matchesSingleCondition rt (Data (JStr ''1.9.0''))
     \<lparr>field = f, operator = ''gt'', cond_value = JStr ''1.10.0''\<rparr> = Inr False \<and>
   matchesSingleCondition rt (Data (JStr ''10''))
     \<lparr>field = f, operator = ''gt'', cond_value = JStr ''9''\<rparr> = Inr True"
proof (intro conjI impI)
  assume h: "contextValue \<noteq> Data JUndefined \<and> contextValue \<noteq> Data JNull \<and>
    op \<in> {''gt'', ''gte'', ''lt'', ''lte''}"
  let ?rhs = "(case (contextValue, operand) of
          (Data (JStr a), JStr b) \<Rightarrow>
            (case (parseSemver rt a, parseSemver rt b) of
               (Some x, Some y) \<Rightarrow> Inr (spec_semver_holds op x y)
             | _ \<Rightarrow> spec_numeric rt op contextValue operand)
        | _ \<Rightarrow> spec_numeric rt op contextValue operand)"
  from h consider "op = ''gt''" | "op = ''gte''" | "op = ''lt''" | "op = ''lte''" by auto
  then show "matchesSingleCondition rt contextValue
      \<lparr>field = f, operator = op, cond_value = operand\<rparr> = ?rhs"
  proof cases
    case 1
    with h show ?thesis
      by (auto simp: matchesSingleCondition_def ordering_case_eq numeric_case_eq
          spec_semver_holds_def compareSemver_sign
          split: resolved.splits jsval.splits option.splits)
  next
    case 2
    with h show ?thesis
      by (auto simp: matchesSingleCondition_def ordering_case_eq numeric_case_eq
          spec_semver_holds_def compareSemver_sign
          split: resolved.splits jsval.splits option.splits)
  next
    case 3
    with h show ?thesis
      by (auto simp: matchesSingleCondition_def ordering_case_eq numeric_case_eq
          spec_semver_holds_def compareSemver_sign
          split: resolved.splits jsval.splits option.splits)
  next
    case 4
    with h show ?thesis
      by (auto simp: matchesSingleCondition_def ordering_case_eq numeric_case_eq
          spec_semver_holds_def compareSemver_sign
          split: resolved.splits jsval.splits option.splits)
  qed
next
  show "matchesSingleCondition rt (Data (JStr ''1.10.0''))
     \<lparr>field = f, operator = ''gt'', cond_value = JStr ''1.9.0''\<rparr> = Inr True"
    by (simp add: matchesSingleCondition_def ordering_case_def parseSemver_def match_digits_def
        compareSemver_def parseInt10_def is_digit_def digits_value_def digit_val_def)
next
  show "matchesSingleCondition rt (Data (JStr ''1.9.0''))
     \<lparr>field = f, operator = ''gt'', cond_value = JStr ''1.10.0''\<rparr> = Inr False"
    by (simp add: matchesSingleCondition_def ordering_case_def parseSemver_def match_digits_def
        compareSemver_def parseInt10_def is_digit_def digits_value_def digit_val_def)
next
  show "matchesSingleCondition rt (Data (JStr ''10''))
     \<lparr>field = f, operator = ''gt'', cond_value = JStr ''9''\<rparr> = Inr True"
    by (simp add: matchesSingleCondition_def ordering_case_def numeric_case_def and_then_def
        parseSemver_def match_digits_def is_digit_def StringToNumber_def digits_value_def
        digit_val_def)
qed

theorem ordering_operators_witness:
  "matchesSingleCondition sample_runtime (Data (JStr ''2.0.1''))
     \<lparr>field = ''appVersion'', operator = ''gte'', cond_value = JStr ''2.0.1-beta''\<rparr> = Inr True \<and>
   matchesSingleCondition sample_runtime (Data (JStr ''7''))
     \<lparr>field = ''count'', operator = ''lt'', cond_value = JNum (Fin 3)\<rparr> = Inr False"
  using ordering_operators [of "Data (JStr ''2.0.1'')" "''gte''" sample_runtime "''appVersion''"
      "JStr ''2.0.1-beta''"]
    ordering_operators [of "Data (JStr ''7'')" "''lt''" sample_runtime "''count''" "JNum (Fin 3)"]
  by (simp add: parseSemver_def match_digits_def parseInt10_def is_digit_def digits_value_def
      digit_val_def spec_semver_holds_def spec_semver_less_def spec_numeric_def
      spec_number_holds_def StringToNumber_def)

text \<open>
  Claim C5, as amended. \<^verbatim>\<open>compareSemver\<close> never throws: its result is always one of
  -1, 0 and 1. When either string fails to parse, the result is still an ordering, that
  of the two raw strings by code units (the fall-back its comment announces), so the
  result alone does not tell a failed parse from a comparison of versions. The failed
  parse is told by \<^verbatim>\<open>parseSemver\<close> returning null, which the caller tests on both
  operands: in that case it sets the comparator's result aside and compares numbers.
\<close>

theorem compareSemver_fallback:
  "compareSemver rt a b \<in> {- 1, 0, 1} \<and>
   (parseSemver rt a = None \<or> parseSemver rt b = None \<longrightarrow>
      compareSemver rt a b = (if str_lt a b then - 1 else if str_lt b a then 1 else 0) \<and>
      ordering_case rt sem num (Data (JStr a)) (JStr b) =
        Inr (num (StringToNumber rt a) (StringToNumber rt b)))"
  by (auto simp: compareSemver_def ordering_case_def numeric_case_def and_then_def
      split: option.splits)

theorem compareSemver_fallback_witness:
  "compareSemver sample_runtime ''abc'' ''1.0.0'' = 1 \<and>
   ordering_case sample_runtime (\<lambda>r. r > 0) (\<lambda>x y. num_lt y x) (Data (JStr ''abc''))
     (JStr ''1.0.0'') = Inr False"
  using compareSemver_fallback [of sample_runtime "''abc''" "''1.0.0''" "\<lambda>r. r > 0"
      "\<lambda>x y. num_lt y x"]
  by (simp add: parseSemver_def match_digits_def is_digit_def StringToNumber_def
      sample_runtime_def)

text \<open>
  Claim C5 as first stated asks for an outcome that tells a failed parse from an
  ordering. There is none: two strings that do not parse and two versions get the same
  result.
\<close>

theorem compareSemver_not_distinguishable:
  "parseSemver sample_runtime ''abc'' = None \<and>
   parseSemver sample_runtime ''1.0.0'' \<noteq> None \<and>
   parseSemver sample_runtime ''2.0.0'' \<noteq> None \<and>
   compareSemver sample_runtime ''abc'' ''abd'' = - 1 \<and>
   compareSemver sample_runtime ''1.0.0'' ''2.0.0'' = - 1"
  by (simp add: compareSemver_def parseSemver_def match_digits_def is_digit_def parseInt10_def
      digits_value_def digit_val_def)

section \<open>Path resolution and absent values\<close>

subsection \<open>Splitting\<close>

lemma split_on_nonempty: "split_on c s \<noteq> []"
  by (induction s) (auto split: list.splits)

lemma split_on_free: "p \<in> set (split_on c s) \<Longrightarrow> c \<notin> set p"
proof (induction s arbitrary: p)
  case Nil
  then show ?case by simp
next
  case (Cons x xs)
  show ?case
  proof (cases "x = c")
    case True
    with Cons show ?thesis by auto
  next
    case False
    obtain q qs where q: "split_on c xs = q # qs"
      using split_on_nonempty [of c xs] by (cases "split_on c xs") auto
    with False Cons.prems have "p = x # q \<or> p \<in> set qs" by auto
    then show ?thesis
    proof
      assume "p = x # q"
      moreover have "c \<notin> set q" using Cons.IH [of q] q by simp
      ultimately show ?thesis using False by auto
    next
      assume "p \<in> set qs"
      then show ?thesis using Cons.IH [of p] q by simp
    qed
  qed
qed

lemma join_dots_Cons:
  "ps \<noteq> [] \<Longrightarrow> join_dots (p # ps) = p @ ''.'' @ join_dots ps"
  by (cases ps) simp_all

lemma join_dots_grow:
  "join_dots ((x # q) # qs) = x # join_dots (q # qs)"
  by (cases qs) simp_all

lemma join_split: "join_dots (split_on CHR ''.'' s) = s"
proof (induction s)
  case Nil
  show ?case by simp
next
  case (Cons x xs)
  obtain q qs where q: "split_on CHR ''.'' xs = q # qs"
    using split_on_nonempty [of "CHR ''.''" xs] by (cases "split_on CHR ''.'' xs") auto
  show ?case
  proof (cases "x = CHR ''.''")
    case True
    with Cons q show ?thesis by (simp add: join_dots_Cons)
  next
    case False
    with Cons q show ?thesis by (simp add: join_dots_grow)
  qed
qed

subsection \<open>Walking\<close>

lemma walk_reads:
  "walk rt v parts =
     (if \<forall>k < length parts. readable (foldl (get_prop rt) v (take k parts))
      then foldl (get_prop rt) v parts else Data JUndefined)"
proof (induction parts arbitrary: v)
  case Nil
  show ?case by simp
next
  case (Cons p ps)
  have split: "(\<forall>k < length (p # ps). readable (foldl (get_prop rt) v (take k (p # ps)))) =
      (readable v \<and> (\<forall>k < length ps. readable (foldl (get_prop rt) (get_prop rt v p) (take k ps))))"
    by (simp add: All_less_Suc2)
  show ?case
  proof (cases "readable v")
    case True
    then have "walk rt v (p # ps) = walk rt (get_prop rt v p) ps"
      by (simp add: readable_def)
    moreover have "foldl (get_prop rt) v (p # ps) = foldl (get_prop rt) (get_prop rt v p) ps"
      by simp
    ultimately show ?thesis
      using True by (simp only: split Cons.IH [of "get_prop rt v p"] simp_thms)
  next
    case False
    then have "walk rt v (p # ps) = Data JUndefined"
      by (auto simp: readable_def)
    then show ?thesis
      using False by (simp only: split simp_thms if_False)
  qed
qed

lemma getContextValue_reads:
  "getContextValue rt context fld =
     (if \<forall>k < length (split_on CHR ''.'' fld).
           readable (reached rt context (split_on CHR ''.'' fld) k)
      then reached rt context (split_on CHR ''.'' fld) (length (split_on CHR ''.'' fld))
      else Data JUndefined)"
  by (simp only: getContextValue_def reached_def walk_reads take_all order_refl)

lemma reached_Suc:
  "k < length parts \<Longrightarrow>
   reached rt context parts (Suc k) = get_prop rt (reached rt context parts k) (parts ! k)"
  by (simp add: reached_def take_Suc_conv_app_nth)

lemma getContextValue_stops:
  assumes "k < length (split_on CHR ''.'' fld)"
    and "\<not> readable (reached rt context (split_on CHR ''.'' fld) k) \<or>
         get_prop rt (reached rt context (split_on CHR ''.'' fld) k) (split_on CHR ''.'' fld ! k)
           = Data JUndefined"
  shows "getContextValue rt context fld = Data JUndefined"
proof -
  let ?parts = "split_on CHR ''.'' fld"
  from assms(2) show ?thesis
  proof
    assume "\<not> readable (reached rt context ?parts k)"
    with assms(1) show ?thesis
      by (auto simp: getContextValue_reads)
  next
    assume "get_prop rt (reached rt context ?parts k) (?parts ! k) = Data JUndefined"
    with assms(1) have u: "reached rt context ?parts (Suc k) = Data JUndefined"
      by (simp add: reached_Suc)
    show ?thesis
    proof (cases "Suc k < length ?parts")
      case True
      with u have "\<exists>j < length ?parts. \<not> readable (reached rt context ?parts j)"
        by (auto simp: readable_def intro!: exI [of _ "Suc k"])
      then show ?thesis by (auto simp: getContextValue_reads)
    next
      case False
      with assms(1) have "length ?parts = Suc k" by simp
      with u show ?thesis by (simp add: getContextValue_reads)
    qed
  qed
qed

text \<open>
  Claim C3, as amended. The field of a condition is split at its dots: the segments have
  no dot and joined with dots they give the field back. Each segment is read as a
  property of the value reached so far, starting from the context. A read finds an own
  property first and then what the value inherits, so a name that the context does not
  have resolves all the same when the built-in prototype has it (\<^verbatim>\<open>constructor\<close>,
  \<^verbatim>\<open>toString\<close>, ...); a name found nowhere reads as \<^verbatim>\<open>undefined\<close>. Resolution
  yields the last value read when every value on the way can be read further, that is,
  is neither null nor undefined and has the \<^verbatim>\<open>typeof\<close> \<^verbatim>\<open>object\<close> (a record, or an
  array, which is read by the names of its indices and by \<^verbatim>\<open>length\<close>); it yields
  \<^verbatim>\<open>undefined\<close> otherwise, and so whenever, with a segment still to read, the value
  reached is null, undefined, a string, a number or a boolean, or a read finds nothing.
  On an absent context value (undefined or null) the operators \<^verbatim>\<open>neq\<close> and
  \<^verbatim>\<open>not_in\<close> match and every other operator, known or not, fails.
\<close>

theorem absent_values:
  "split_on CHR ''.'' fld \<noteq> [] \<and>
   (\<forall>p \<in> set (split_on CHR ''.'' fld). CHR ''.'' \<notin> set p) \<and>
   join_dots (split_on CHR ''.'' fld) = fld \<and>
   getContextValue rt context fld =
     (if \<forall>j < length (split_on CHR ''.'' fld).
           readable (reached rt context (split_on CHR ''.'' fld) j)
      then reached rt context (split_on CHR ''.'' fld) (length (split_on CHR ''.'' fld))
      else Data JUndefined) \<and>
   (k < length (split_on CHR ''.'' fld) \<and>
    (\<not> readable (reached rt context (split_on CHR ''.'' fld) k) \<or>
     get_prop rt (reached rt context (split_on CHR ''.'' fld) k) (split_on CHR ''.'' fld ! k)
       = Data JUndefined)
    \<longrightarrow> getContextValue rt context fld = Data JUndefined) \<and>
   (map_of kvs part = Some v \<longrightarrow> get_prop rt (Data (JObj kvs)) part = Data v) \<and>
   (map_of kvs part = None \<and> part \<noteq> ''__proto__'' \<and> part \<noteq> ''constructor'' \<and>
    part \<notin> set object_members \<longrightarrow> get_prop rt (Data (JObj kvs)) part = Data JUndefined) \<and>
   (contextValue = Data JUndefined \<or> contextValue = Data JNull \<longrightarrow>
      matchesSingleCondition rt contextValue condition =
        Inr (operator condition = ''neq'' \<or> operator condition = ''not_in'')) \<and>
   (map_of kvs part = None \<and> part \<in> set object_members \<longrightarrow>
      get_prop rt (Data (JObj kvs)) part = Builtin (''Object.prototype.'' @ part)) \<and>
   (own_element xs part = Some v \<longrightarrow> get_prop rt (Data (JArr xs)) part = Data v)"
proof (intro conjI impI ballI)
  show "split_on CHR ''.'' fld \<noteq> []" by (rule split_on_nonempty)
  show "join_dots (split_on CHR ''.'' fld) = fld" by (rule join_split)
  show "getContextValue rt context fld =
     (if \<forall>j < length (split_on CHR ''.'' fld).
           readable (reached rt context (split_on CHR ''.'' fld) j)
      then reached rt context (split_on CHR ''.'' fld) (length (split_on CHR ''.'' fld))
      else Data JUndefined)"
    by (rule getContextValue_reads)
next
  fix p assume "p \<in> set (split_on CHR ''.'' fld)"
  then show "CHR ''.'' \<notin> set p" by (rule split_on_free)
next
  assume "k < length (split_on CHR ''.'' fld) \<and>
    (\<not> readable (reached rt context (split_on CHR ''.'' fld) k) \<or>
     get_prop rt (reached rt context (split_on CHR ''.'' fld) k) (split_on CHR ''.'' fld ! k)
       = Data JUndefined)"
  then show "getContextValue rt context fld = Data JUndefined"
    using getContextValue_stops by blast
next
  assume "map_of kvs part = Some v"
  then show "get_prop rt (Data (JObj kvs)) part = Data v" by simp
next
  assume "map_of kvs part = None \<and> part \<noteq> ''__proto__'' \<and> part \<noteq> ''constructor'' \<and>
    part \<notin> set object_members"
  then show "get_prop rt (Data (JObj kvs)) part = Data JUndefined"
    by (simp add: from_object_prototype_def)
next
  assume "contextValue = Data JUndefined \<or> contextValue = Data JNull"
  then show "matchesSingleCondition rt contextValue condition =
        Inr (operator condition = ''neq'' \<or> operator condition = ''not_in'')"
    by (auto simp: matchesSingleCondition_def Let_def)
next
  assume "map_of kvs part = None \<and> part \<in> set object_members"
  then show "get_prop rt (Data (JObj kvs)) part = Builtin (''Object.prototype.'' @ part)"
    by (auto simp: from_object_prototype_def object_members_def)
next
  assume "own_element xs part = Some v"
  then show "get_prop rt (Data (JArr xs)) part = Data v" by simp
qed

theorem absent_values_witness:
  "getContextValue sample_runtime [(''x'', JObj [(''y'', JStr ''a'')])] ''x.y'' = Data (JStr ''a'') \<and>
   getContextValue sample_runtime [] ''x.y'' = Data JUndefined \<and>
   getContextValue sample_runtime [(''x'', JStr ''s'')] ''x.y'' = Data JUndefined \<and>
   getContextValue sample_runtime [(''x'', JNull)] ''x.y'' = Data JUndefined \<and>
   getContextValue sample_runtime [(''x'', JObj [(''z'', JStr ''a'')])] ''x.y'' = Data JUndefined \<and>
   matchesSingleCondition sample_runtime (Data JUndefined)
     \<lparr>field = ''x.y'', operator = ''neq'', cond_value = JStr ''a''\<rparr> = Inr True \<and>
   matchesSingleCondition sample_runtime (Data JUndefined)
     \<lparr>field = ''x.y'', operator = ''eq'', cond_value = JStr ''a''\<rparr> = Inr False \<and>
   matchesSingleCondition sample_runtime (Data JNull)
     \<lparr>field = ''x.y'', operator = ''not_in'', cond_value = JArr [JStr ''a'']\<rparr> = Inr True"
  using absent_values [of "''x.y''" sample_runtime "[(''x'', JObj [(''y'', JStr ''a'')])]" 0
      "[(''y'', JStr ''a'')]" "''y''" "JStr ''a''" "Data JUndefined"
      "\<lparr>field = ''x.y'', operator = ''neq'', cond_value = JStr ''a''\<rparr>"]
    absent_values [of "''x.y''" sample_runtime "[]" 0 "[]" "''x''" JNull "Data JUndefined"
      "\<lparr>field = ''x.y'', operator = ''eq'', cond_value = JStr ''a''\<rparr>"]
    absent_values [of "''x.y''" sample_runtime "[(''x'', JStr ''s'')]" 1 "[]" "''x''" JNull
      "Data JNull" "\<lparr>field = ''x.y'', operator = ''not_in'', cond_value = JArr [JStr ''a'']\<rparr>"]
    absent_values [of "''x.y''" sample_runtime "[(''x'', JNull)]" 1 "[]" "''x''" JNull
      "Data JNull" "\<lparr>field = ''x.y'', operator = ''not_in'', cond_value = JArr [JStr ''a'']\<rparr>"]
    absent_values [of "''x.y''" sample_runtime "[(''x'', JObj [(''z'', JStr ''a'')])]" 1 "[]"
      "''x''" JNull "Data JNull"
      "\<lparr>field = ''x.y'', operator = ''not_in'', cond_value = JArr [JStr ''a'']\<rparr>"]
  by (simp add: reached_def readable_def from_object_prototype_def object_members_def
      All_less_Suc2)

text \<open>
  Claim C3 as first stated has resolution yield absent whenever a segment is missing or
  an intermediate value is not a mapping. An array on the way is a sequence, not a
  mapping, and its elements and its length resolve; and a segment that the context does
  not have, \<^verbatim>\<open>constructor\<close>, resolves to the built-in function every object
  inherits, a present value on which \<^verbatim>\<open>contains\<close> matches.
\<close>

theorem absent_values_arrays_and_inherited:
  "getContextValue sample_runtime [(''tags'', JArr [JStr ''pro''])] ''tags.0'' = Data (JStr ''pro'') \<and>
   getContextValue sample_runtime [(''tags'', JArr [JStr ''pro''])] ''tags.length'' =
     Data (JNum (Fin 1)) \<and>
   map_of ([] :: FlagEvaluationContext) ''constructor'' = None \<and>
   getContextValue sample_runtime [] ''constructor'' = Builtin ''Object'' \<and>
   matchesSingleCondition sample_runtime (getContextValue sample_runtime [] ''constructor'')
     \<lparr>field = ''constructor'', operator = ''contains'', cond_value = JStr ''Object''\<rparr> = Inr True"
  by (simp add: getContextValue_def own_element_def canonical_index_def is_digit_def
      digits_value_def digit_val_def from_object_prototype_def matchesSingleCondition_def
      and_then_def sample_runtime_def)

section \<open>Coercion and malformed conditions\<close>




























section \<open>The rollout gate\<close>

text \<open>
  Claim C2. For every flag key, user id and integer percentage: the gate is open when
  the percentage is at least 100 and closed when it is at most 0, whatever the key and
  the user; for a percentage strictly between, it is open exactly when the hash of
  \<^verbatim>\<open>flagKey:userId\<close>, reduced modulo 100, is below the percentage, and that bucket
  lies in 0..99.
\<close>

theorem calculateRollout_gate:
  "(percentage \<ge> 100 \<longrightarrow> calculateRollout rt flagKey user percentage = Inr True) \<and>
   (percentage \<le> 0 \<longrightarrow> calculateRollout rt flagKey user percentage = Inr False) \<and>
   (0 < percentage \<and> percentage < 100 \<longrightarrow>
      calculateRollout rt flagKey (Data (JStr userId)) percentage =
        Inr (int (unat (murmurhash3 rt (flagKey @ '':'' @ userId)) mod 100) < percentage)) \<and>
   unat (murmurhash3 rt (flagKey @ '':'' @ userId)) mod 100 \<in> {0..99}"
  by (simp add: calculateRollout_def and_then_def Let_def)

theorem calculateRollout_gate_witness:
  "calculateRollout sample_runtime ''new_editor_ui'' (Data (JStr ''u1'')) 100 = Inr True \<and>
   calculateRollout sample_runtime ''new_editor_ui'' (Data (JStr ''u1'')) 0 = Inr False \<and>
   calculateRollout sample_runtime ''new_editor_ui'' (Data (JStr ''u1'')) 30 = Inr True \<and>
   calculateRollout sample_runtime ''new_editor_ui'' (Data (JStr ''u1'')) 16 = Inr False"
  using calculateRollout_gate [of 100 sample_runtime "''new_editor_ui''" "Data (JStr ''u1'')" "''u1''"]
    calculateRollout_gate [of 0 sample_runtime "''new_editor_ui''" "Data (JStr ''u1'')" "''u1''"]
    calculateRollout_gate [of 30 sample_runtime "''new_editor_ui''" "Data (JStr ''u1'')" "''u1''"]
    calculateRollout_gate [of 16 sample_runtime "''new_editor_ui''" "Data (JStr ''u1'')" "''u1''"]
  by (simp add: sample_runtime_def)

section \<open>Single flag evaluation\<close>











text \<open>
  Claim C10. A stored flag whose \<^verbatim>\<open>enabled\<close> is null is evaluated as one whose
  \<^verbatim>\<open>enabled\<close> is false: the answer is the default value with the source
  \<^verbatim>\<open>disabled\<close>, and it does not depend on the rules.
\<close>

theorem null_enabled_is_disabled:
  "enabled flag = None \<longrightarrow>
     evaluateSingleFlag rt flag context =
       Inr \<lparr>res_key = flag_key flag, res_value = defaultValue flag, source = Disabled,
            ruleId = None\<rparr> \<and>
     evaluateSingleFlag rt flag context =
       evaluateSingleFlag rt (flag\<lparr>enabled := Some False\<rparr>) context \<and>
     evaluateSingleFlag rt (flag\<lparr>rules := rs\<rparr>) context = evaluateSingleFlag rt flag context"
  by (simp add: evaluateSingleFlag_def)

theorem null_enabled_is_disabled_witness:
  "evaluateSingleFlag sample_runtime (sample_flag\<lparr>enabled := None\<rparr>) [] =
     Inr \<lparr>res_key = ''new_editor_ui'', res_value = JBool False, source = Disabled,
          ruleId = None\<rparr>"
  using null_enabled_is_disabled [of "sample_flag\<lparr>enabled := None\<rparr>" sample_runtime "[]"]
  by (simp add: sample_flag_def)

section \<open>Cache invalidation\<close>

lemma lookup_emptied:
  "lookup (emptied K sl) k = (if k \<in> K then None else lookup sl k)"
proof -
  have "map_of (emptied K sl) k = (if k \<in> K then map_option (\<lambda>e. None) (map_of sl k) else map_of sl k)"
    by (induction sl) (auto simp: emptied_def)
  then show ?thesis
    by (auto simp: lookup_def split: option.splits)
qed

lemma emptied_empty: "emptied {} sl = sl"
  by (induction sl) (auto simp: emptied_def)

lemma length_emptied: "length (emptied K sl) = length sl"
  by (simp add: emptied_def)

lemma take_emptied: "take n (emptied K sl) = emptied K (take n sl)"
  by (simp add: emptied_def take_map)

lemma lookup_not_live:
  assumes "\<forall>s \<in> set sl. \<not> live pattern s" "glob_match pattern k"
  shows "lookup sl k = None"
proof (cases "map_of sl k")
  case None
  then show ?thesis by (simp add: lookup_def)
next
  case (Some e)
  then have "(k, e) \<in> set sl" by (rule map_of_SomeD)
  with assms(1) have "\<not> live pattern (k, e)" by blast
  with assms(2) have "e = None" by (cases e) (simp_all add: live_def)
  with Some show ?thesis by (simp add: lookup_def)
qed

lemma redis_del_slots:
  "fst (redis_del keys w) = Inr u \<Longrightarrow> slots (snd (redis_del keys w)) = emptied (set keys) (slots w)"
  by (auto simp: redis_del_def redis_called_def emptied_def split: if_splits)

lemma redis_del_error:
  "fst (redis_del keys w) = Inl e \<Longrightarrow> slots (snd (redis_del keys w)) = slots w"
  by (auto simp: redis_del_def redis_called_def split: if_splits)

lemma redis_del_ok: "\<not> redis_rejects w \<Longrightarrow> fst (redis_del keys w) = Inr ()"
  by (simp add: redis_del_def)

text \<open>One pass of the loop body.\<close>

lemma scan_pass:
  assumes "redis_scan c pattern 100 w = (Inr (nc, keys), w1)"
    and "(if keys \<noteq> [] then redis_del keys w1 else (Inr (), w1)) = (Inr u, w2)"
  shows "slots w2 = emptied (set keys) (slots w)"
    and "set keys = fst ` {s \<in> set (take 100 (drop c (slots w))). live pattern s}"
    and "nc = (if c + 100 < length (slots w) then c + 100 else 0)"
proof -
  from assms(1) have w1: "slots w1 = slots w"
    and keys: "keys = map fst (filter (\<lambda>(k, e). e \<noteq> None \<and> glob_match pattern k)
                            (take 100 (drop c (slots w))))"
    and nc: "nc = (if c + 100 < length (slots w) then c + 100 else 0)"
    by (auto simp: redis_scan_def redis_called_def split: if_splits)
  show "nc = (if c + 100 < length (slots w) then c + 100 else 0)" by (rule nc)
  show "set keys = fst ` {s \<in> set (take 100 (drop c (slots w))). live pattern s}"
    unfolding keys by (auto simp: live_def image_iff)
  show "slots w2 = emptied (set keys) (slots w)"
  proof (cases "keys = []")
    case True
    with assms(2) w1 show ?thesis by (simp add: emptied_empty)
  next
    case False
    with assms(2) have "fst (redis_del keys w1) = Inr u" "w2 = snd (redis_del keys w1)"
      by (auto simp: prod_eq_iff)
    with w1 show ?thesis by (simp add: redis_del_slots)
  qed
qed

lemma scan_loop_complete:
  "fst (scan_loop pattern c n w) = Inr m \<Longrightarrow>
   \<forall>s \<in> set (take c (slots w)). \<not> live pattern s \<Longrightarrow>
   \<forall>s \<in> set (slots (snd (scan_loop pattern c n w))). \<not> live pattern s"
proof (induction pattern c n w rule: scan_loop.induct)
  case (1 pattern c n w)
  obtain r w1 where scan: "redis_scan c pattern 100 w = (r, w1)" by (cases "redis_scan c pattern 100 w")
  from "1.prems"(1) scan obtain nc keys where r: "r = Inr (nc, keys)"
    by (cases r) (auto simp: scan_loop.simps [of pattern c n w])
  obtain r2 w2 where del: "(if keys \<noteq> [] then redis_del keys w1 else (Inr (), w1)) = (r2, w2)"
    by (cases "if keys \<noteq> [] then redis_del keys w1 else (Inr (), w1)")
  from "1.prems"(1) scan r del obtain u where r2: "r2 = Inr u"
    by (cases r2) (auto simp: scan_loop.simps [of pattern c n w])
  note pass = scan_pass [OF scan [unfolded r] del [unfolded r2]]
  let ?n' = "if keys \<noteq> [] then n + length keys else n"
  have covered: "\<forall>s \<in> set (take (c + 100) (slots w2)). \<not> live pattern s"
  proof
    fix s assume "s \<in> set (take (c + 100) (slots w2))"
    then have "s \<in> set (emptied (set keys) (take c (slots w) @ take 100 (drop c (slots w))))"
      by (simp add: pass(1) take_emptied take_add)
    then obtain k e where ke: "(k, e) \<in> set (take c (slots w)) \<union> set (take 100 (drop c (slots w)))"
      and s: "s = (if k \<in> set keys then (k, None) else (k, e))"
      by (auto simp: emptied_def)
    show "\<not> live pattern s"
    proof (cases "k \<in> set keys")
      case True
      with s show ?thesis by (simp add: live_def)
    next
      case False
      with ke pass(2) "1.prems"(2) have "\<not> live pattern (k, e)"
        by (force simp: image_iff)
      with False s show ?thesis by simp
    qed
  qed
  show ?case
  proof (cases "nc = 0")
    case True
    then have res: "scan_loop pattern c n w = (Inr ?n', w2)"
      using scan r del r2 by (simp add: scan_loop.simps [of pattern c n w])
    from True pass(3) have "length (slots w) \<le> c + 100"
      by (simp split: if_splits)
    then have "take (c + 100) (slots w2) = slots w2"
      by (simp add: pass(1) length_emptied)
    with covered res show ?thesis by simp
  next
    case False
    then have res: "scan_loop pattern c n w = scan_loop pattern nc ?n' w2"
      using scan r del r2 by (simp add: scan_loop.simps [of pattern c n w])
    from False pass(3) have nc: "nc = c + 100" by (simp split: if_splits)
    have "\<forall>s \<in> set (slots (snd (scan_loop pattern nc ?n' w2))). \<not> live pattern s"
    proof (rule "1.IH" [OF scan [symmetric] r refl del [symmetric] r2 refl False])
      show "fst (scan_loop pattern nc ?n' w2) = Inr m"
        using "1.prems"(1) res by simp
      show "\<forall>s \<in> set (take nc (slots w2)). \<not> live pattern s"
        using covered nc by simp
    qed
    with res show ?thesis by simp
  qed
qed


lemma scan_loop_frame:
  "\<not> glob_match pattern k \<Longrightarrow>
   lookup (slots (snd (scan_loop pattern c n w))) k = lookup (slots w) k"
proof (induction pattern c n w rule: scan_loop.induct)
  case (1 pattern c n w)
  obtain r w1 where scan: "redis_scan c pattern 100 w = (r, w1)" by (cases "redis_scan c pattern 100 w")
  then have w1: "slots w1 = slots w"
    by (auto simp: redis_scan_def redis_called_def split: if_splits)
  show ?case
  proof (cases r)
    case (Inl e)
    with scan w1 show ?thesis
      by (simp add: scan_loop.simps [of pattern c n w])
  next
    case (Inr p)
    obtain nc keys where p: "p = (nc, keys)" by (cases p)
    note r = Inr [unfolded p]
    obtain r2 w2 where del: "(if keys \<noteq> [] then redis_del keys w1 else (Inr (), w1)) = (r2, w2)"
      by (cases "if keys \<noteq> [] then redis_del keys w1 else (Inr (), w1)")
    show ?thesis
    proof (cases r2)
      case (Inl e)
      with del have "slots w2 = slots w1"
        by (auto simp: redis_del_def redis_called_def split: if_splits)
      with Inl scan r del w1 show ?thesis
        by (simp add: scan_loop.simps [of pattern c n w])
    next
      case (Inr u)
      note pass = scan_pass [OF scan [unfolded r] del [unfolded Inr]]
      from pass(2) "1.prems" have "k \<notin> set keys"
        by (auto simp: live_def)
      then have same: "lookup (slots w2) k = lookup (slots w) k"
        by (simp add: pass(1) lookup_emptied)
      let ?n' = "if keys \<noteq> [] then n + length keys else n"
      show ?thesis
      proof (cases "nc = 0")
        case True
        then have "scan_loop pattern c n w = (Inr ?n', w2)"
          using scan r del Inr by (simp add: scan_loop.simps [of pattern c n w])
        with same show ?thesis by simp
      next
        case False
        then have "scan_loop pattern c n w = scan_loop pattern nc ?n' w2"
          using scan r del Inr by (simp add: scan_loop.simps [of pattern c n w])
        with same "1.IH" [OF scan [symmetric] r refl del [symmetric] Inr refl False "1.prems"]
        show ?thesis by simp
      qed
    qed
  qed
qed

lemma scan_loop_ok:
  "redis_faults w = [] \<Longrightarrow> \<exists>m. fst (scan_loop pattern c n w) = Inr m"
proof (induction pattern c n w rule: scan_loop.induct)
  case (1 pattern c n w)
  from "1.prems" obtain nc keys where scan: "redis_scan c pattern 100 w = (Inr (nc, keys), w)"
    by (simp add: redis_scan_def redis_rejects_def redis_called_def)
  have "\<exists>w2. (if keys \<noteq> [] then redis_del keys w else (Inr (), w)) = (Inr (), w2) \<and>
          redis_faults w2 = []"
    using "1.prems" by (simp add: redis_del_def redis_rejects_def redis_called_def)
  then obtain w2 where del: "(if keys \<noteq> [] then redis_del keys w else (Inr (), w)) = (Inr (), w2)"
    and w2: "redis_faults w2 = []"
    by blast
  let ?n' = "if keys \<noteq> [] then n + length keys else n"
  show ?case
  proof (cases "nc = 0")
    case True
    then have "scan_loop pattern c n w = (Inr ?n', w2)"
      using scan del by (simp add: scan_loop.simps [of pattern c n w])
    then show ?thesis by simp
  next
    case False
    then have "scan_loop pattern c n w = scan_loop pattern nc ?n' w2"
      using scan del by (simp add: scan_loop.simps [of pattern c n w])
    with "1.IH" [OF scan [symmetric] refl refl del [symmetric] refl refl False w2]
    show ?thesis by simp
  qed
qed

lemma glob_star: "glob_match ''*'' s"
  by (induction s) simp_all

lemma glob_user_pattern: "glob_match ''flags:user:*'' k = is_prefix ''flags:user:'' k"
proof -
  have lit: "\<And>c p s. c \<noteq> CHR ''*'' \<Longrightarrow> c \<noteq> CHR ''?'' \<Longrightarrow>
      glob_match (c # p) s = (case s of [] \<Rightarrow> False | d # t \<Rightarrow> c = d \<and> glob_match p t)"
    by (case_tac s) simp_all
  show ?thesis
    by (simp add: lit glob_star split: list.splits)
qed

text \<open>
  Claim C8. \<^verbatim>\<open>invalidateUserFlagCache\<close> leaves every cache entry but the one under
  \<^verbatim>\<open>flags:user:<userId>\<close> as it was, and when it returns that entry is gone; it returns
  whenever Redis takes its one command. When \<^verbatim>\<open>invalidateFlagCaches\<close> returns, the
  entry under \<^verbatim>\<open>flags:all\<close> is gone and so is every entry whose key matches
  \<^verbatim>\<open>flags:user:*\<close>, that is, every key that starts with \<^verbatim>\<open>flags:user:\<close>; every other
  entry is as it was; and it returns whenever Redis rejects no command.
\<close>

theorem invalidation_effects:
  "(\<forall>k. k \<noteq> ''flags:user:'' @ userId \<longrightarrow>
      lookup (slots (snd (invalidateUserFlagCache userId w))) k = lookup (slots w) k) \<and>
   (fst (invalidateUserFlagCache userId w) = Inr () \<longrightarrow>
      lookup (slots (snd (invalidateUserFlagCache userId w))) (''flags:user:'' @ userId) = None) \<and>
   (\<not> redis_rejects w \<longrightarrow> fst (invalidateUserFlagCache userId w) = Inr ()) \<and>
   (fst (invalidateFlagCaches w) = Inr () \<longrightarrow>
      lookup (slots (snd (invalidateFlagCaches w))) ''flags:all'' = None \<and>
      (\<forall>k. glob_match ''flags:user:*'' k \<longrightarrow>
         lookup (slots (snd (invalidateFlagCaches w))) k = None)) \<and>
   (\<forall>k. glob_match ''flags:user:*'' k = is_prefix ''flags:user:'' k) \<and>
   (\<forall>k. k \<noteq> ''flags:all'' \<and> \<not> glob_match ''flags:user:*'' k \<longrightarrow>
      lookup (slots (snd (invalidateFlagCaches w))) k = lookup (slots w) k) \<and>
   (redis_faults w = [] \<longrightarrow> fst (invalidateFlagCaches w) = Inr ())"
proof (intro conjI allI impI)
  fix k assume "k \<noteq> ''flags:user:'' @ userId"
  then show "lookup (slots (snd (invalidateUserFlagCache userId w))) k = lookup (slots w) k"
    using redis_del_slots [of "[''flags:user:'' @ userId]" w]
      redis_del_error [of "[''flags:user:'' @ userId]" w]
    by (cases "fst (redis_del [''flags:user:'' @ userId] w)")
      (simp_all add: invalidateUserFlagCache_def deleteCache_def lookup_emptied)
next
  assume "fst (invalidateUserFlagCache userId w) = Inr ()"
  then show "lookup (slots (snd (invalidateUserFlagCache userId w))) (''flags:user:'' @ userId) = None"
    using redis_del_slots [of "[''flags:user:'' @ userId]" w]
    by (simp add: invalidateUserFlagCache_def deleteCache_def lookup_emptied)
next
  assume "\<not> redis_rejects w"
  then show "fst (invalidateUserFlagCache userId w) = Inr ()"
    by (simp add: invalidateUserFlagCache_def deleteCache_def redis_del_ok)
next
  fix k show "glob_match ''flags:user:*'' k = is_prefix ''flags:user:'' k"
    by (rule glob_user_pattern)
next
  assume ok: "fst (invalidateFlagCaches w) = Inr ()"
  obtain r1 w1 where d1: "deleteCache ALL_FLAGS_CACHE_KEY w = (r1, w1)"
    by (cases "deleteCache ALL_FLAGS_CACHE_KEY w")
  obtain r2 w2 where d2: "deleteCachePattern ''flags:user:*'' w1 = (r2, w2)"
    by (cases "deleteCachePattern ''flags:user:*'' w1")
  from ok d1 have r1: "r1 = Inr ()"
    by (cases r1) (simp_all add: invalidateFlagCaches_def)
  from ok d1 d2 r1 obtain m where r2: "r2 = Inr m"
    by (cases r2) (simp_all add: invalidateFlagCaches_def)
  from d1 d2 r1 r2 have w2: "snd (invalidateFlagCaches w) = w2"
    by (simp add: invalidateFlagCaches_def)
  from d1 r1 have s1: "slots w1 = emptied {''flags:all''} (slots w)"
    using redis_del_slots [of "[''flags:all'']" w]
    by (simp add: deleteCache_def ALL_FLAGS_CACHE_KEY_def)
  have frame: "lookup (slots w2) ''flags:all'' = lookup (slots w1) ''flags:all''"
    using scan_loop_frame [of "''flags:user:*''" "''flags:all''" 0 0 w1] d2
    by (simp add: deleteCachePattern_def glob_user_pattern)
  show "lookup (slots (snd (invalidateFlagCaches w))) ''flags:all'' = None"
    by (simp add: w2 frame s1 lookup_emptied)
  have "\<forall>s \<in> set (slots w2). \<not> live ''flags:user:*'' s"
    using scan_loop_complete [of "''flags:user:*''" 0 0 w1 m] d2 r2
    by (simp add: deleteCachePattern_def)
  then show "\<And>k. glob_match ''flags:user:*'' k \<Longrightarrow>
      lookup (slots (snd (invalidateFlagCaches w))) k = None"
    unfolding w2 by (rule lookup_not_live)
next
  fix k assume k: "k \<noteq> ''flags:all'' \<and> \<not> glob_match ''flags:user:*'' k"
  obtain r1 w1 where d1: "deleteCache ALL_FLAGS_CACHE_KEY w = (r1, w1)"
    by (cases "deleteCache ALL_FLAGS_CACHE_KEY w")
  have s1: "lookup (slots w1) k = lookup (slots w) k"
    using d1 k redis_del_slots [of "[''flags:all'']" w] redis_del_error [of "[''flags:all'']" w]
    by (cases r1) (auto simp: deleteCache_def ALL_FLAGS_CACHE_KEY_def lookup_emptied)
  show "lookup (slots (snd (invalidateFlagCaches w))) k = lookup (slots w) k"
  proof (cases r1)
    case (Inl e)
    with d1 s1 show ?thesis by (simp add: invalidateFlagCaches_def)
  next
    case (Inr u)
    have "snd (invalidateFlagCaches w) = snd (deleteCachePattern ''flags:user:*'' w1)"
      using d1 Inr by (simp add: invalidateFlagCaches_def split: prod.splits sum.splits)
    with k s1 show ?thesis
      by (simp add: deleteCachePattern_def scan_loop_frame)
  qed
next
  assume nf: "redis_faults w = []"
  then have d1: "deleteCache ALL_FLAGS_CACHE_KEY w = (Inr (), snd (redis_del [ALL_FLAGS_CACHE_KEY] w))"
    and nf1: "redis_faults (snd (redis_del [ALL_FLAGS_CACHE_KEY] w)) = []"
    by (simp_all add: deleteCache_def redis_del_def redis_rejects_def redis_called_def)
  from scan_loop_ok [OF nf1] obtain m where
    "fst (scan_loop ''flags:user:*'' 0 0 (snd (redis_del [ALL_FLAGS_CACHE_KEY] w))) = Inr m"
    by blast
  then obtain w2 where
    "scan_loop ''flags:user:*'' 0 0 (snd (redis_del [ALL_FLAGS_CACHE_KEY] w)) = (Inr m, w2)"
    by (cases "scan_loop ''flags:user:*'' 0 0 (snd (redis_del [ALL_FLAGS_CACHE_KEY] w))") simp
  with d1 show "fst (invalidateFlagCaches w) = Inr ()"
    by (simp add: invalidateFlagCaches_def deleteCachePattern_def)
qed

theorem invalidation_effects_witness:
  "lookup (slots (snd (invalidateUserFlagCache ''u1'' sample_world))) ''flags:user:u1'' = None \<and>
   lookup (slots (snd (invalidateUserFlagCache ''u1'' sample_world))) ''flags:user:u2'' =
     Some (''bulk2'', Some 60) \<and>
   lookup (slots (snd (invalidateUserFlagCache ''u1'' sample_world))) ''flags:all'' =
     Some (''snapshot'', Some 300) \<and>
   lookup (slots (snd (invalidateFlagCaches sample_world))) ''flags:all'' = None \<and>
   lookup (slots (snd (invalidateFlagCaches sample_world))) ''flags:user:u1'' = None \<and>
   lookup (slots (snd (invalidateFlagCaches sample_world))) ''flags:user:u2'' = None \<and>
   lookup (slots (snd (invalidateFlagCaches sample_world))) ''session:u1'' = Some (''s'', None)"
  using invalidation_effects [of "''u1''" sample_world]
  by (simp add: sample_world_def redis_rejects_def lookup_def)

section \<open>Flag loading and lookup\<close>

lemma getCache_slots: "slots (snd (getCache parse key w)) = slots w"
  by (simp add: getCache_def redis_get_def redis_called_def split: option.splits)

lemma select_slots:
  "slots (snd (select_featureFlags w)) = slots w"
  "slots (snd (select_featureFlagRules w)) = slots w"
  by (simp_all add: select_featureFlags_def select_featureFlagRules_def db_called_def)

lemma setCache_error:
  "fst (setCache key v ttl w) = Inl e \<Longrightarrow> slots (snd (setCache key v ttl w)) = slots w"
  by (auto simp: setCache_def redis_set_def redis_called_def split: if_splits)

lemma lookup_redis_set:
  "fst (redis_set key v ex w) = Inr u \<Longrightarrow>
   lookup (slots (snd (redis_set key v ex w))) key = Some (v, ex)"
proof -
  have upd: "\<And>sl. key \<in> fst ` set sl \<Longrightarrow>
      map_of (map (\<lambda>(k, e). if k = key then (k, Some (v, ex)) else (k, e)) sl) key = Some (Some (v, ex))"
    subgoal for sl by (induction sl) auto
    done
  have app: "\<And>sl. key \<notin> fst ` set sl \<Longrightarrow> map_of sl key = None"
    by (simp add: map_of_eq_None_iff)
  assume "fst (redis_set key v ex w) = Inr u"
  then show ?thesis
    by (auto simp: redis_set_def redis_called_def lookup_def upd app map_add_def split: if_splits)
qed

text \<open>
  Claim C9. Whenever \<^verbatim>\<open>loadAllFlags\<close> fails, the cache is as it was before the call.
  In particular, on a cache miss, when the fetch of the flags fails, or when it succeeds
  and the fetch of the rules fails, the call fails with the error of the store and
  nothing is written. A load that succeeds after a miss does write the snapshot under
  \<^verbatim>\<open>flags:all\<close>, with an expiry of 300 seconds.
\<close>

theorem loadAllFlags_atomic:
  "(fst (loadAllFlags rt w) = Inl e \<longrightarrow> slots (snd (loadAllFlags rt w)) = slots w) \<and>
   (getCache (JSON_parse rt) ALL_FLAGS_CACHE_KEY w = (Inr None, w1) \<and>
    (fst (select_featureFlags w1) = Inl DatabaseError \<or>
     fst (select_featureFlagRules (snd (select_featureFlags w1))) = Inl DatabaseError) \<longrightarrow>
      fst (loadAllFlags rt w) = Inl DatabaseError \<and>
      slots (snd (loadAllFlags rt w)) = slots w) \<and>
   (fst (loadAllFlags rt w) = Inr flags \<and>
    fst (getCache (JSON_parse rt) ALL_FLAGS_CACHE_KEY w) = Inr None \<longrightarrow>
      lookup (slots (snd (loadAllFlags rt w))) ALL_FLAGS_CACHE_KEY =
        Some (JSON_stringify rt flags, Some 300))"
proof -
  obtain r0 w0 where g: "getCache (JSON_parse rt) ALL_FLAGS_CACHE_KEY w = (r0, w0)"
    by (cases "getCache (JSON_parse rt) ALL_FLAGS_CACHE_KEY w")
  obtain rf wf where f: "select_featureFlags w0 = (rf, wf)"
    by (cases "select_featureFlags w0")
  obtain rr wr where r: "select_featureFlagRules wf = (rr, wr)"
    by (cases "select_featureFlagRules wf")
  have s0: "slots w0 = slots w" using getCache_slots [of "JSON_parse rt" ALL_FLAGS_CACHE_KEY w] g by simp
  have sf: "slots wf = slots w0" using select_slots(1) [of w0] f by simp
  have sr: "slots wr = slots wf" using select_slots(2) [of wf] r by simp
  have fe: "rf = Inl DatabaseError \<or> (\<exists>rows. rf = Inr rows)"
    using f by (auto simp: select_featureFlags_def split: if_splits)
  have re: "rr = Inl DatabaseError \<or> (\<exists>rows. rr = Inr rows)"
    using r by (auto simp: select_featureFlagRules_def split: if_splits)
  have 1: "fst (loadAllFlags rt w) = Inl e \<longrightarrow> slots (snd (loadAllFlags rt w)) = slots w"
    using g f r s0 sf sr
    by (auto simp: loadAllFlags_def Let_def prod_eq_iff setCache_error
        split: sum.splits option.splits prod.splits)
  have 2: "getCache (JSON_parse rt) ALL_FLAGS_CACHE_KEY w = (Inr None, w1) \<and>
    (fst (select_featureFlags w1) = Inl DatabaseError \<or>
     fst (select_featureFlagRules (snd (select_featureFlags w1))) = Inl DatabaseError) \<longrightarrow>
      fst (loadAllFlags rt w) = Inl DatabaseError \<and>
      slots (snd (loadAllFlags rt w)) = slots w"
    using g f r s0 sf sr fe re
    by (auto simp: loadAllFlags_def)
  have 3: "fst (loadAllFlags rt w) = Inr flags \<and>
    fst (getCache (JSON_parse rt) ALL_FLAGS_CACHE_KEY w) = Inr None \<longrightarrow>
      lookup (slots (snd (loadAllFlags rt w))) ALL_FLAGS_CACHE_KEY =
        Some (JSON_stringify rt flags, Some 300)"
    using g f r
    by (auto simp: loadAllFlags_def Let_def setCache_def ALL_FLAGS_CACHE_TTL_def prod_eq_iff
        lookup_redis_set split: sum.splits option.splits prod.splits)
  from 1 2 3 show ?thesis by blast
qed

theorem loadAllFlags_atomic_witness:
  "fst (loadAllFlags sample_runtime (sample_world\<lparr>slots := [], db_faults := [True]\<rparr>)) =
     Inl DatabaseError \<and>
   slots (snd (loadAllFlags sample_runtime (sample_world\<lparr>slots := [], db_faults := [True]\<rparr>))) = [] \<and>
   fst (loadAllFlags sample_runtime (sample_world\<lparr>slots := [], db_faults := [False, True]\<rparr>)) =
     Inl DatabaseError \<and>
   slots (snd (loadAllFlags sample_runtime
     (sample_world\<lparr>slots := [], db_faults := [False, True]\<rparr>))) = [] \<and>
   lookup (slots (snd (loadAllFlags sample_runtime (sample_world\<lparr>slots := []\<rparr>))))
     ALL_FLAGS_CACHE_KEY = Some (''snapshot'', Some 300)"
  using loadAllFlags_atomic [of sample_runtime "sample_world\<lparr>slots := [], db_faults := [True]\<rparr>"
      DatabaseError "sample_world\<lparr>slots := [], db_faults := [True]\<rparr>" "[]"]
    loadAllFlags_atomic [of sample_runtime "sample_world\<lparr>slots := [], db_faults := [False, True]\<rparr>"
      DatabaseError "sample_world\<lparr>slots := [], db_faults := [False, True]\<rparr>" "[]"]
    loadAllFlags_atomic [of sample_runtime "sample_world\<lparr>slots := []\<rparr>"
      DatabaseError "sample_world\<lparr>slots := []\<rparr>"
      "[sample_flag\<lparr>rules := []\<rparr>]"]
  by (simp add: sample_world_def sample_runtime_def sample_flag_def getCache_def redis_get_def
      redis_rejects_def redis_called_def lookup_def ALL_FLAGS_CACHE_KEY_def
      select_featureFlags_def select_featureFlagRules_def db_rejects_def db_called_def
      loadAllFlags_def build_flags_def setCache_def redis_set_def ALL_FLAGS_CACHE_TTL_def)

text \<open>
  Claim C6. When the flags load and none of them has the requested key,
  \<^verbatim>\<open>evaluateFlag\<close> returns, without an error, the requested key with the value null
  and the source \<^verbatim>\<open>default\<close>.
\<close>

theorem evaluateFlag_unknown_key:
  "fst (loadAllFlags rt w) = Inr allFlags \<and> flagKey \<notin> flag_key ` set allFlags \<longrightarrow>
     evaluateFlag rt flagKey context w =
       (Inr \<lparr>res_key = flagKey, res_value = JNull, source = Default, ruleId = None\<rparr>,
        snd (loadAllFlags rt w))"
proof
  assume h: "fst (loadAllFlags rt w) = Inr allFlags \<and> flagKey \<notin> flag_key ` set allFlags"
  then have "find (\<lambda>f. flag_key f = flagKey) allFlags = None"
    by (auto simp: find_None_iff)
  with h show "evaluateFlag rt flagKey context w =
       (Inr \<lparr>res_key = flagKey, res_value = JNull, source = Default, ruleId = None\<rparr>,
        snd (loadAllFlags rt w))"
    by (cases "loadAllFlags rt w") (simp add: evaluateFlag_def)
qed

theorem evaluateFlag_unknown_key_witness:
  "fst (evaluateFlag sample_runtime ''no_such_flag'' [] sample_world) =
     Inr \<lparr>res_key = ''no_such_flag'', res_value = JNull, source = Default, ruleId = None\<rparr>"
  using evaluateFlag_unknown_key [of sample_runtime sample_world "[sample_flag]" "''no_such_flag''" "[]"]
  by (simp add: sample_world_def sample_runtime_def sample_flag_def getCache_def redis_get_def
      redis_rejects_def redis_called_def lookup_def ALL_FLAGS_CACHE_KEY_def loadAllFlags_def)

end
